theory Spec2Isabelle
  imports
    Complex_Main
    "HOL-Library.Char_ord"
    "HOL-Library.List_Lexorder"
    "HOL-Library.Product_Lexorder"
    "HOL-Library.Multiset"
begin

section \<open>Python values shared by the modelled modules\<close>

text \<open>
  Python strings are modelled as HOL strings (lists of characters with a code below 256), so \<open>len\<close> is
  \<open>length\<close>, indexing is \<open>!\<close> (guarded wherever the source can read out of range) and
  the order of \<open>sorted\<close> on strings is the lexicographic order by character code.
  Every \<open>raise\<close> of the source is a value of \<open>error\<close>; a function that can raise
  returns \<open>error + 'a\<close>, with \<open>Inl\<close> for the exception.
\<close>

datatype error =
    NotImplementedError
  | IndexError
  | KeyError
  | UnpackError
  | UnboundLocalError
  | EmptyName
  | FilenameNotValid string
  | WrongTFLAZC string string
  | WrongKeyValue string string string
  | AlreadyTranslationColumns
  | InvalidROIColumns
  | MissingTranslationColumns int
  | LengthsMustMatch
  | NotSameROIs int int
  | ShapeMismatch
  | InconsistentImageSizes

text \<open>\<open>s.split(sep)\<close> for a one-character separator: one more piece than separators.\<close>

fun split_on :: "char \<Rightarrow> string \<Rightarrow> string list" where
  "split_on sep [] = [[]]"
| "split_on sep (c # cs) =
     (if c = sep then [] # split_on sep cs
      else (case split_on sep cs of
              piece # pieces \<Rightarrow> (c # piece) # pieces
            | [] \<Rightarrow> [[c]]))"

text \<open>\<open>sep.join(xs)\<close> for a one-character separator.\<close>

fun join_with :: "char \<Rightarrow> string list \<Rightarrow> string" where
  "join_with sep [] = []"
| "join_with sep [x] = x"
| "join_with sep (x # y # ys) = x @ sep # join_with sep (y # ys)"

text \<open>
  The characters of the class \<open>[0-9]\<close> of a regular expression, and \<open>s.isdigit()\<close>:
  at least one character, and every character a digit. For \<open>str.isdigit\<close> the digits
  are the ten decimal digits and, among the characters with a code below 256 (the
  characters of a HOL string), the superscripts two, three and one (codes \<open>0xB2\<close>,
  \<open>0xB3\<close>, \<open>0xB9\<close>), which \<open>[0-9]\<close> does not match.
\<close>

definition is_digit_char :: "char \<Rightarrow> bool" where
  "is_digit_char c = (c \<in> set ''0123456789'')"

definition is_unicode_digit :: "char \<Rightarrow> bool" where
  "is_unicode_digit c = (is_digit_char c \<or> c \<in> {CHR 0xB2, CHR 0xB3, CHR 0xB9})"

definition isdigit :: "string \<Rightarrow> bool" where
  "isdigit s = (s \<noteq> [] \<and> list_all is_unicode_digit s)"

section \<open>cellvoyager/wells.py\<close>

text \<open>
  \<open>get_filename_well_id\<close>: the \<open>else\<close> branch raises \<open>NotImplementedError\<close>; the
  indices \<open>row[0]\<close>, \<open>row[1]\<close>, \<open>col[2]\<close> are read only under the length test, and
  \<open>col[:2]\<close> is \<open>take 2 col\<close>.
\<close>

definition get_filename_well_id :: "string \<Rightarrow> string \<Rightarrow> error + string" where
  "get_filename_well_id row col =
     (if length row = 1 \<and> length col = 2 then Inr (row @ col)
      else if length row = 2 \<and> length col = 3 then
        Inr ([row ! 0] @ take 2 col @ ''.'' @ [row ! 1] @ [col ! 2])
      else Inl NotImplementedError)"

text \<open>
  \<open>_extract_row_col_from_well_id\<close>. In the second branch
  \<open>core, suffix = well_id.split(".")\<close> unpacks two pieces, and \<open>core[0]\<close>,
  \<open>suffix[0]\<close>, \<open>suffix[1]\<close> raise \<open>IndexError\<close> when the piece is too short (the dot
  at position 0, 4 or 5); \<open>core[1:]\<close> is \<open>tl core\<close>.
\<close>

definition extract_row_col_from_well_id :: "string \<Rightarrow> error + (string \<times> string)" where
  "extract_row_col_from_well_id well_id =
     (if length well_id = 3 \<and> count_list well_id (CHR ''.'') = 0 then
        Inr ([well_id ! 0], take 2 (drop 1 well_id))
      else if length well_id = 6 \<and> count_list well_id (CHR ''.'') = 1 then
        (case split_on (CHR ''.'') well_id of
           [core, suffix] \<Rightarrow>
             if length core < 1 \<or> length suffix < 2 then Inl IndexError
             else Inr ([core ! 0] @ [suffix ! 0], tl core @ [suffix ! 1])
         | _ \<Rightarrow> Inl UnpackError)
      else Inl NotImplementedError)"

text \<open>
  \<open>generate_row_col_split\<close>: the list comprehension stops at the first well that raises;
  \<open>sorted\<close> on tuples of strings is the sort by the lexicographic order on pairs, which
  is the order \<open>\<le>\<close> on \<open>string \<times> string\<close> here.
\<close>

fun extract_all :: "string list \<Rightarrow> error + (string \<times> string) list" where
  "extract_all [] = Inr []"
| "extract_all (well # wells) =
     (case extract_row_col_from_well_id well of
        Inl e \<Rightarrow> Inl e
      | Inr rc \<Rightarrow> (case extract_all wells of Inl e \<Rightarrow> Inl e | Inr rcs \<Rightarrow> Inr (rc # rcs)))"

definition generate_row_col_split :: "string list \<Rightarrow> error + (string \<times> string) list" where
  "generate_row_col_split wells =
     (case extract_all wells of Inl e \<Rightarrow> Inl e | Inr well_rows_columns \<Rightarrow> Inr (sort well_rows_columns))"

section \<open>illumination\_correction.py: the image size of the FOV windows\<close>

text \<open>
  One element of \<open>list_indices\<close>, the level-0 window
  \<open>[s_z, e_z, s_y, e_y, s_x, e_x]\<close> of one ROI as \<open>convert_ROI_table_to_indices\<close>
  returns it (that function is not part of the modelled sources; its result is the input
  here). \<open>indices[3] - indices[2]\<close> is \<open>e_y - s_y\<close> and \<open>indices[5] - indices[4]\<close>
  is \<open>e_x - s_x\<close>.
\<close>

record indices =
  s_z :: int
  e_z :: int
  s_y :: int
  e_y :: int
  s_x :: int
  e_x :: int

text \<open>
  The loop over \<open>list_indices\<close>, with the loop variables \<open>ref_img_size\<close> and
  \<open>img_size\<close> as arguments (\<open>None\<close>: not assigned yet).
\<close>

fun img_size_loop ::
  "(int \<times> int) option \<Rightarrow> (int \<times> int) option \<Rightarrow> indices list \<Rightarrow> error + (int \<times> int) option"
where
  "img_size_loop ref_img_size img_size [] = Inr img_size"
| "img_size_loop ref_img_size img_size (ind # list_indices) =
     (let img_size = (e_y ind - s_y ind, e_x ind - s_x ind) in
      case ref_img_size of
        None \<Rightarrow> img_size_loop (Some img_size) (Some img_size) list_indices
      | Some r \<Rightarrow>
          if img_size \<noteq> r then Inl InconsistentImageSizes
          else img_size_loop ref_img_size (Some img_size) list_indices)"

text \<open>
  The part of \<open>illumination_correction\<close> from \<open>ref_img_size = None\<close> to
  \<open>img_size_y, img_size_x = img_size[:]\<close>; after an empty loop \<open>img_size\<close> is unbound.
\<close>

definition illumination_correction_img_size :: "indices list \<Rightarrow> error + (int \<times> int)" where
  "illumination_correction_img_size list_indices =
     (case img_size_loop None None list_indices of
        Inl e \<Rightarrow> Inl e
      | Inr None \<Rightarrow> Inl UnboundLocalError
      | Inr (Some img_size) \<Rightarrow> Inr img_size)"

section \<open>lib\_parse\_filename\_metadata.py\<close>

text \<open>
  \<open>re.split(r"([0-9]+)", s)\<close>: the text before the first run of digits, then, for every
  maximal run of digits, the run and the text that follows it (the empty string after a
  run that ends \<open>s\<close>).
\<close>

function re_split_digits :: "string \<Rightarrow> string list" where
  "re_split_digits s =
     (let text = takeWhile (\<lambda>c. \<not> is_digit_char c) s;
          rest = dropWhile (\<lambda>c. \<not> is_digit_char c) s
      in if rest = [] then [text]
         else text # takeWhile is_digit_char rest # re_split_digits (dropWhile is_digit_char rest))"
  by pat_completeness auto
termination
proof (relation "measure length")
  show "wf (measure length)" by simp
next
  fix s :: string and rest :: string
  assume rest: "rest = dropWhile (\<lambda>c. \<not> is_digit_char c) s" and ne: "rest \<noteq> []"
  from ne obtain d ds where r: "rest = d # ds" by (cases rest) auto
  have "dropWhile (\<lambda>c. \<not> is_digit_char c) s \<noteq> []"
    using rest ne by simp
  then have "\<not> \<not> is_digit_char (hd (dropWhile (\<lambda>c. \<not> is_digit_char c) s))"
    by (rule hd_dropWhile)
  then have "is_digit_char (hd rest)"
    by (simp add: rest)
  then have "is_digit_char d"
    by (simp add: r)
  then have "length (dropWhile is_digit_char rest) \<le> length ds"
    by (simp add: r length_dropWhile_le)
  also have "length ds < length rest" by (simp add: r)
  also have "length rest \<le> length s" by (simp add: rest length_dropWhile_le)
  finally show "(dropWhile is_digit_char rest, s) \<in> measure length" by simp
qed

declare re_split_digits.simps [simp del]

definition get_plate_name :: "string \<Rightarrow> string" where
  "get_plate_name plate_prefix =
     (let fields = split_on (CHR ''_'') plate_prefix in
      if length fields = 3
         \<and> length (fields ! 1) = 6 \<and> length (fields ! 2) = 6
         \<and> isdigit (fields ! 1) \<and> isdigit (fields ! 2)
      then fields ! 0
      else if length fields = 4
         \<and> length (fields ! 0) = 6 \<and> length (fields ! 1) = 6
         \<and> length (fields ! 2) = 6 \<and> length (fields ! 3) = 6
         \<and> isdigit (fields ! 0) \<and> isdigit (fields ! 1)
         \<and> isdigit (fields ! 2) \<and> isdigit (fields ! 3)
      then ''RS'' @ (fields ! 0 @ fields ! 1)
      else plate_prefix)"

text \<open>
  The loop \<open>for ind, key in enumerate(metadata[::2])\<close> with
  \<open>value = metadata[2 * ind + 1]\<close>, over the remaining elements of \<open>metadata\<close>;
  \<open>output\<close> is the dictionary being filled.
\<close>

fun fill_output ::
  "string \<Rightarrow> (string \<rightharpoonup> string) \<Rightarrow> string list \<Rightarrow> error + (string \<rightharpoonup> string)"
where
  "fill_output filename output [] = Inr output"
| "fill_output filename output [key] = Inl IndexError"
| "fill_output filename output (key # value # metadata) =
     (if isdigit key \<or> \<not> isdigit value then Inl (WrongKeyValue filename key value)
      else fill_output filename (output(key \<mapsto> value)) metadata)"

text \<open>
  The pairs \<open>(key, value)\<close> that the loop visits: \<open>key\<close> runs over
  \<open>metadata[::2]\<close> and \<open>value\<close> is the element after it.
\<close>

fun key_value_pairs :: "string list \<Rightarrow> (string \<times> string) list" where
  "key_value_pairs (key # value # metadata) = (key, value) # key_value_pairs metadata"
| "key_value_pairs _ = []"

text \<open>
  The part ``Assign TFLAZC'' of \<open>parse_filename\<close>, from \<open>re.split\<close> to
  \<open>return output\<close>; \<open>metadata[:-1]\<close> is \<open>butlast\<close>.
\<close>

definition assign_TFLAZC ::
  "string \<Rightarrow> (string \<rightharpoonup> string) \<Rightarrow> string \<Rightarrow> error + (string \<rightharpoonup> string)" where
  "assign_TFLAZC filename output TFLAZC =
     (let metadata = re_split_digits TFLAZC in
      if last metadata \<noteq> [] \<or> length metadata \<noteq> 13
      then Inl (WrongTFLAZC filename TFLAZC)
      else fill_output filename output (butlast metadata))"

text \<open>
  \<open>Path(filename).with_suffix("").name\<close>, the first statement of \<open>parse_filename\<close>, as
  \<open>pathlib\<close> computes it for a POSIX path. The parts of a path are the pieces between
  slashes that are neither empty nor a single dot, and \<open>name\<close> is the last part, the empty
  string when there is none. \<open>s.rfind(c)\<close> is the index of the last \<open>c\<close> in \<open>s\<close>, and
  \<open>-1\<close> when there is none. \<open>suffix\<close> is \<open>name[i:]\<close> for \<open>i = name.rfind(".")\<close> when
  \<open>0 < i < len(name) - 1\<close>, and the empty string otherwise. \<open>with_suffix("")\<close> raises
  \<open>ValueError\<close> when the name is empty; otherwise its last part, which \<open>.name\<close> then
  reads, is the name itself when the suffix is empty and \<open>name[:-len(old_suffix)]\<close> when
  it is not.
\<close>

definition path_name :: "string \<Rightarrow> string" where
  "path_name path =
     (case rev (filter (\<lambda>part. part \<noteq> [] \<and> part \<noteq> ''.'') (split_on (CHR ''/'') path)) of
        [] \<Rightarrow> []
      | name # parts \<Rightarrow> name)"

definition rfind :: "char \<Rightarrow> string \<Rightarrow> int" where
  "rfind c s =
     (if c \<in> set s then int (length s) - 1 - int (length (takeWhile (\<lambda>x. x \<noteq> c) (rev s)))
      else - 1)"

definition path_suffix :: "string \<Rightarrow> string" where
  "path_suffix name =
     (let i = rfind (CHR ''.'') name in
      if 0 < i \<and> i < int (length name) - 1 then drop (nat i) name else [])"

definition with_suffix_empty_name :: "string \<Rightarrow> error + string" where
  "with_suffix_empty_name path =
     (let name = path_name path in
      if name = [] then Inl EmptyName
      else
        let old_suffix = path_suffix name in
        if old_suffix = [] then Inr name
        else Inr (take (length name - length old_suffix) name))"

text \<open>
  \<open>parse_filename\<close>. The source assigns the stripped name to \<open>filename\<close> again, so the
  fields, the token and the error messages are those of the stripped name.
  \<open>filename_fields[:-2]\<close> is \<open>take (n - 2)\<close> and \<open>filename_fields[-2]\<close> is the element
  \<open>n - 2\<close>.
\<close>

definition parse_filename :: "string \<Rightarrow> error + (string \<rightharpoonup> string)" where
  "parse_filename filename =
     (case with_suffix_empty_name filename of
        Inl e \<Rightarrow> Inl e
      | Inr filename \<Rightarrow>
          let filename_fields = split_on (CHR ''_'') filename in
          if length filename_fields < 3 then Inl (FilenameNotValid filename)
          else
            let plate_prefix = join_with (CHR ''_'') (take (length filename_fields - 2) filename_fields);
                output = [''plate_prefix'' \<mapsto> plate_prefix,
                          ''plate'' \<mapsto> get_plate_name plate_prefix,
                          ''well'' \<mapsto> filename_fields ! (length filename_fields - 2)]
            in assign_TFLAZC filename output (last filename_fields))"

section \<open>tasks/apply\_registration\_to\_ROI\_tables.py\<close>

subsection \<open>Numbers, tables and frames\<close>

text \<open>
  A cell of a table is a float. Arithmetic on floats is taken as exact arithmetic on the
  reals (rounding is not modelled); \<open>NaN\<close> is kept, because the frames that
  \<open>calculate_min_max_across_dfs\<close> starts from are filled with it: every comparison with
  \<open>NaN\<close> is false and every sum or difference with \<open>NaN\<close> is \<open>NaN\<close>.
\<close>

datatype pyfloat = Num (num: real) | NaN

fun fadd :: "pyfloat \<Rightarrow> pyfloat \<Rightarrow> pyfloat" where
  "fadd (Num a) (Num b) = Num (a + b)"
| "fadd _ _ = NaN"

fun fsub :: "pyfloat \<Rightarrow> pyfloat \<Rightarrow> pyfloat" where
  "fsub (Num a) (Num b) = Num (a - b)"
| "fsub _ _ = NaN"

fun fge :: "pyfloat \<Rightarrow> pyfloat \<Rightarrow> bool" where
  "fge (Num a) (Num b) = (a \<ge> b)"
| "fge _ _ = False"

fun fle :: "pyfloat \<Rightarrow> pyfloat \<Rightarrow> bool" where
  "fle (Num a) (Num b) = (a \<le> b)"
| "fle _ _ = False"

text \<open>
  \<open>np.maximum\<close> and \<open>np.minimum\<close> on arrays of Python objects (the frames built with
  \<open>pd.DataFrame(index=..., columns=...)\<close> have dtype \<open>object\<close>): the first operand when
  \<open>i1 >= i2\<close> (\<open>i1 <= i2\<close>) holds, the second one otherwise.
\<close>

definition npy_ObjectMax :: "pyfloat \<Rightarrow> pyfloat \<Rightarrow> pyfloat" where
  "npy_ObjectMax i1 i2 = (if fge i1 i2 then i1 else i2)"

definition npy_ObjectMin :: "pyfloat \<Rightarrow> pyfloat \<Rightarrow> pyfloat" where
  "npy_ObjectMin i1 i2 = (if fle i1 i2 then i1 else i2)"

text \<open>
  An \<open>AnnData\<close> table: the names of its rows (\<open>obs.index\<close>, one per ROI), the names of
  its columns (\<open>var.index\<close>) and the matrix \<open>X\<close>, addressed by row and column name as
  \<open>table[[roi], [column]]\<close> does. The names of a table are unique keys.
\<close>

record anndata =
  obs_names :: "string list"
  var_names :: "string list"
  X_cell :: "string \<Rightarrow> string \<Rightarrow> pyfloat"

text \<open>
  A \<open>pandas.DataFrame\<close>: index, columns and the array \<open>.values\<close>, one list per row.
\<close>

record dataframe =
  df_index :: "string list"
  df_columns :: "string list"
  df_values :: "pyfloat list list"

definition bind_err :: "error + 'a \<Rightarrow> ('a \<Rightarrow> error + 'b) \<Rightarrow> error + 'b" where
  "bind_err m f = (case m of Inl e \<Rightarrow> Inl e | Inr x \<Rightarrow> f x)"

fun map_err :: "('a \<Rightarrow> error + 'b) \<Rightarrow> 'a list \<Rightarrow> error + 'b list" where
  "map_err f [] = Inr []"
| "map_err f (x # xs) =
     (case f x of
        Inl e \<Rightarrow> Inl e
      | Inr y \<Rightarrow> (case map_err f xs of Inl e \<Rightarrow> Inl e | Inr ys \<Rightarrow> Inr (y # ys)))"

text \<open>
  A \<open>dict\<close> keeps its keys in insertion order: \<open>d[k] = v\<close> replaces the value of a key
  that is present and appends a new key; \<open>d[k]\<close> raises \<open>KeyError\<close> for a missing key.
\<close>

fun dict_set :: "('k \<times> 'v) list \<Rightarrow> 'k \<Rightarrow> 'v \<Rightarrow> ('k \<times> 'v) list" where
  "dict_set [] k v = [(k, v)]"
| "dict_set ((k', v') # d) k v = (if k' = k then (k, v) # d else (k', v') # dict_set d k v)"

definition dict_get :: "('k \<times> 'v) list \<Rightarrow> 'k \<Rightarrow> error + 'v" where
  "dict_get d k = (case map_of d k of None \<Rightarrow> Inl KeyError | Some v \<Rightarrow> Inr v)"

text \<open>The position of a label in an index.\<close>

fun first_index :: "'a list \<Rightarrow> 'a \<Rightarrow> nat option" where
  "first_index [] x = None"
| "first_index (y # ys) x = (if x = y then Some 0 else map_option Suc (first_index ys x))"

text \<open>\<open>table[[roi], [column]].X\<close> and \<open>table[[roi], [column]] = v\<close>.\<close>

definition get_cell :: "anndata \<Rightarrow> string \<Rightarrow> string \<Rightarrow> error + pyfloat" where
  "get_cell table roi column =
     (if roi \<in> set (obs_names table) \<and> column \<in> set (var_names table)
      then Inr (X_cell table roi column) else Inl KeyError)"

definition set_cell :: "anndata \<Rightarrow> string \<Rightarrow> string \<Rightarrow> pyfloat \<Rightarrow> error + anndata" where
  "set_cell table roi column v =
     (if roi \<in> set (obs_names table) \<and> column \<in> set (var_names table)
      then Inr (table\<lparr>X_cell := (X_cell table)(roi := (X_cell table roi)(column := v))\<rparr>)
      else Inl KeyError)"

text \<open>\<open>table.to_df().loc[:, columns]\<close>.\<close>

definition to_df_loc :: "anndata \<Rightarrow> string list \<Rightarrow> error + dataframe" where
  "to_df_loc table columns =
     (if set columns \<subseteq> set (var_names table)
      then Inr \<lparr>df_index = obs_names table, df_columns = columns,
                df_values = map (\<lambda>roi. map (X_cell table roi) columns) (obs_names table)\<rparr>
      else Inl KeyError)"

text \<open>\<open>df.loc[row, column]\<close>.\<close>

definition df_loc :: "dataframe \<Rightarrow> string \<Rightarrow> string \<Rightarrow> error + pyfloat" where
  "df_loc df row column =
     (case (first_index (df_index df) row, first_index (df_columns df) column) of
        (Some i, Some j) \<Rightarrow> Inr (df_values df ! i ! j)
      | _ \<Rightarrow> Inl KeyError)"

text \<open>
  \<open>pd.DataFrame(ufunc(df.values, table.values), columns=df.columns, index=df.index)\<close>
  for a binary \<open>ufunc\<close>: the arrays are combined position by position, a \<open>table\<close> with
  one row or one column is broadcast, and the call raises when the shapes cannot be
  broadcast or the result does not have the shape of \<open>df\<close>.
\<close>

definition dataframe_of_ufunc ::
  "(pyfloat \<Rightarrow> pyfloat \<Rightarrow> pyfloat) \<Rightarrow> dataframe \<Rightarrow> dataframe \<Rightarrow> error + dataframe" where
  "dataframe_of_ufunc ufunc df table =
     (let n = length (df_index df); k = length (df_columns df);
          m = length (df_index table); l = length (df_columns table)
      in if (m = n \<or> m = 1) \<and> (l = k \<or> l = 1) then
           Inr (df\<lparr>df_values :=
             map (\<lambda>i. map (\<lambda>j. ufunc (df_values df ! i ! j)
                     (df_values table ! (if m = 1 then 0 else i) ! (if l = 1 then 0 else j)))
                   [0..<k]) [0..<n]\<rparr>)
         else Inl ShapeMismatch)"

subsection \<open>The helper functions of the task\<close>

definition translation_columns :: "string list" where
  "translation_columns = [''translation_z'', ''translation_y'', ''translation_x'']"

text \<open>
  \<open>add_zero_translation_columns\<close>: \<open>ad.concat\<close> along the columns appends the three
  columns, filled with zeros, to the table.
\<close>

definition add_zero_translation_columns :: "anndata \<Rightarrow> error + anndata" where
  "add_zero_translation_columns ad_table =
     (let columns = [''translation_z'', ''translation_y'', ''translation_x''] in
      if list_ex (\<lambda>v. v \<in> set columns) (var_names ad_table)
      then Inl AlreadyTranslationColumns
      else Inr (ad_table\<lparr>var_names := var_names ad_table @ columns,
                  X_cell := (\<lambda>roi column. if column \<in> set columns then Num 0
                                           else X_cell ad_table roi column)\<rparr>))"

text \<open>
  \<open>calculate_min_max_across_dfs\<close>. \<open>tables_list[0]\<close> raises \<open>IndexError\<close> on an empty
  list. Both frames start filled with \<open>NaN\<close>; neither is ever \<open>None\<close>, so each pass of
  the loop takes the \<open>else\<close> branches.
\<close>

fun min_max_loop ::
  "dataframe \<Rightarrow> dataframe \<Rightarrow> dataframe list \<Rightarrow> error + (dataframe \<times> dataframe)" where
  "min_max_loop max_df min_df [] = Inr (max_df, min_df)"
| "min_max_loop max_df min_df (table # tables_list) =
     (case dataframe_of_ufunc npy_ObjectMax max_df table of
        Inl e \<Rightarrow> Inl e
      | Inr max_df' \<Rightarrow>
          (case dataframe_of_ufunc npy_ObjectMin min_df table of
             Inl e \<Rightarrow> Inl e
           | Inr min_df' \<Rightarrow> min_max_loop max_df' min_df' tables_list))"

definition calculate_min_max_across_dfs ::
  "dataframe list \<Rightarrow> error + (dataframe \<times> dataframe)" where
  "calculate_min_max_across_dfs tables_list =
     (case tables_list of
        [] \<Rightarrow> Inl IndexError
      | table0 # _ \<Rightarrow>
          let empty_df = \<lparr>df_index = df_index table0, df_columns = df_columns table0,
                df_values = replicate (length (df_index table0))
                              (replicate (length (df_columns table0)) NaN)\<rparr>
          in min_max_loop empty_df empty_df tables_list)"

text \<open>
  \<open>apply_registration_to_single_ROI_table\<close>. One assignment of the first kind,
  \<open>roi_table[[roi], [position]] = roi_table[[roi], [position]].X
     + float(max_df.loc[roi, translation]) - roi_table[[roi], [translation]].X\<close>:
\<close>

definition shift_position ::
  "anndata \<Rightarrow> dataframe \<Rightarrow> string \<Rightarrow> string \<Rightarrow> string \<Rightarrow> error + anndata" where
  "shift_position roi_table max_df roi position translation =
     bind_err (get_cell roi_table roi position) (\<lambda>p.
     bind_err (df_loc max_df roi translation) (\<lambda>max_shift.
     bind_err (get_cell roi_table roi translation) (\<lambda>own_shift.
       set_cell roi_table roi position (fsub (fadd p max_shift) own_shift))))"

text \<open>
  and one of the second kind,
  \<open>roi_table[[roi], [len]] = roi_table[[roi], [len]].X
     - float(max_df.loc[roi, translation]) + float(min_df.loc[roi, translation])\<close>:
\<close>

definition shrink_length ::
  "anndata \<Rightarrow> dataframe \<Rightarrow> dataframe \<Rightarrow> string \<Rightarrow> string \<Rightarrow> string \<Rightarrow> error + anndata" where
  "shrink_length roi_table max_df min_df roi len translation =
     bind_err (get_cell roi_table roi len) (\<lambda>l.
     bind_err (df_loc max_df roi translation) (\<lambda>max_shift.
     bind_err (df_loc min_df roi translation) (\<lambda>min_shift.
       set_cell roi_table roi len (fadd (fsub l max_shift) min_shift))))"

text \<open>The six assignments of one pass of the loop \<open>for roi in rois\<close>.\<close>

definition register_roi ::
  "anndata \<Rightarrow> dataframe \<Rightarrow> dataframe \<Rightarrow> string \<Rightarrow> error + anndata" where
  "register_roi roi_table max_df min_df roi =
     bind_err (shift_position roi_table max_df roi ''z_micrometer'' ''translation_z'') (\<lambda>t1.
     bind_err (shift_position t1 max_df roi ''y_micrometer'' ''translation_y'') (\<lambda>t2.
     bind_err (shift_position t2 max_df roi ''x_micrometer'' ''translation_x'') (\<lambda>t3.
     bind_err (shrink_length t3 max_df min_df roi ''len_z_micrometer'' ''translation_z'') (\<lambda>t4.
     bind_err (shrink_length t4 max_df min_df roi ''len_y_micrometer'' ''translation_y'') (\<lambda>t5.
       shrink_length t5 max_df min_df roi ''len_x_micrometer'' ''translation_x'')))))"

text \<open>The loop itself; \<open>copy.deepcopy\<close> is the identity on values.\<close>

fun apply_registration_to_single_ROI_table ::
  "anndata \<Rightarrow> dataframe \<Rightarrow> dataframe \<Rightarrow> string list \<Rightarrow> error + anndata" where
  "apply_registration_to_single_ROI_table roi_table max_df min_df [] = Inr roi_table"
| "apply_registration_to_single_ROI_table roi_table max_df min_df (roi # rois) =
     (case register_roi roi_table max_df min_df roi of
        Inl e \<Rightarrow> Inl e
      | Inr roi_table' \<Rightarrow> apply_registration_to_single_ROI_table roi_table' max_df min_df rois)"

subsection \<open>The task\<close>

text \<open>
  The first loop of \<open>apply_registration_to_ROI_tables\<close>, over the acquisitions and the
  table stored for each (what \<open>ad.read_zarr\<close> returns), filling the dictionary
  \<open>roi_tables\<close>. \<open>are_ROI_table_columns_valid\<close> belongs to
  \<open>lib_regions_of_interest\<close>, which is not among the modelled sources: it is the
  parameter \<open>columns_valid\<close>, false when the call raises.
  \<open>var.index.isin(translation_columns).sum()\<close> counts the columns with one of the three
  names.
\<close>

fun collect_roi_tables ::
  "(anndata \<Rightarrow> bool) \<Rightarrow> int \<Rightarrow> (int \<times> anndata) list \<Rightarrow> (int \<times> anndata) list
     \<Rightarrow> error + (int \<times> anndata) list" where
  "collect_roi_tables columns_valid reference_cycle roi_tables [] = Inr roi_tables"
| "collect_roi_tables columns_valid reference_cycle roi_tables ((acq, stored) # acquisitions) =
     (case (if acq = reference_cycle then add_zero_translation_columns stored else Inr stored) of
        Inl e \<Rightarrow> Inl e
      | Inr curr_ROI_table \<Rightarrow>
          if \<not> columns_valid curr_ROI_table then Inl InvalidROIColumns
          else if length (filter (\<lambda>v. v \<in> set translation_columns) (var_names curr_ROI_table)) \<noteq> 3
          then Inl (MissingTranslationColumns acq)
          else collect_roi_tables columns_valid reference_cycle
                 (dict_set roi_tables acq curr_ROI_table) acquisitions)"

text \<open>
  \<open>(acq_roi_table.obs.index == rois).all()\<close>: comparing two indexes of different
  lengths raises (``Lengths must match to compare''); for equal lengths the comparison is
  made position by position.
\<close>

definition index_eq :: "string list \<Rightarrow> string list \<Rightarrow> error + bool list" where
  "index_eq xs ys =
     (if length xs \<noteq> length ys then Inl LengthsMustMatch else Inr (map2 (=) xs ys))"

text \<open>The loop ``Check that all acquisition have the same ROIs''.\<close>

fun check_same_ROIs :: "int \<Rightarrow> string list \<Rightarrow> (int \<times> anndata) list \<Rightarrow> error + unit" where
  "check_same_ROIs reference_cycle rois [] = Inr ()"
| "check_same_ROIs reference_cycle rois ((acq, acq_roi_table) # roi_tables) =
     (case index_eq (obs_names acq_roi_table) rois of
        Inl e \<Rightarrow> Inl e
      | Inr eqs \<Rightarrow>
          if \<not> list_all (\<lambda>b. b) eqs then Inl (NotSameROIs acq reference_cycle)
          else check_same_ROIs reference_cycle rois roi_tables)"

text \<open>
  The task from the check of the ROI names on, given the dictionary \<open>roi_tables\<close> (after
  the origins are reset): the check, the frames of the translation columns, their
  maximum and minimum, and the loop over the acquisitions that fills \<open>shifted_rois\<close>.
  Writing the new tables to disk is not modelled; the result is \<open>shifted_rois\<close>.
\<close>

definition register_roi_tables ::
  "int \<Rightarrow> (int \<times> anndata) list \<Rightarrow> error + (int \<times> anndata) list" where
  "register_roi_tables reference_cycle roi_tables =
     bind_err (dict_get roi_tables reference_cycle) (\<lambda>reference_table.
     bind_err (check_same_ROIs reference_cycle (obs_names reference_table) roi_tables) (\<lambda>_.
     bind_err (map_err (\<lambda>(acq, roi_table). to_df_loc roi_table translation_columns) roi_tables)
       (\<lambda>roi_table_dfs.
     bind_err (calculate_min_max_across_dfs roi_table_dfs) (\<lambda>(max_df, min_df).
       map_err (\<lambda>(acq, _).
           bind_err (dict_get roi_tables acq) (\<lambda>roi_table.
           bind_err (apply_registration_to_single_ROI_table roi_table max_df min_df
                       (obs_names reference_table)) (\<lambda>shifted.
             Inr (acq, shifted))))
         roi_tables))))"

text \<open>
  The whole task. \<open>reset_origin\<close> also belongs to \<open>lib_regions_of_interest\<close> and is a
  parameter.
\<close>

definition apply_registration_to_ROI_tables ::
  "(anndata \<Rightarrow> bool) \<Rightarrow> (anndata \<Rightarrow> anndata) \<Rightarrow> int \<Rightarrow> (int \<times> anndata) list
     \<Rightarrow> error + (int \<times> anndata) list" where
  "apply_registration_to_ROI_tables columns_valid reset_origin reference_cycle acquisitions =
     bind_err (collect_roi_tables columns_valid reference_cycle [] acquisitions) (\<lambda>roi_tables.
       register_roi_tables reference_cycle
         (map (\<lambda>(acq, acq_roi_table). (acq, reset_origin acq_roi_table)) roi_tables))"

text \<open>
  The columns that the task reads and writes, axis by axis: position, extent and
  translation. \<open>roi_columns\<close> are the six columns of every ROI table.
\<close>

definition axes :: "(string \<times> string \<times> string) list" where
  "axes = [(''z_micrometer'', ''len_z_micrometer'', ''translation_z''),
           (''y_micrometer'', ''len_y_micrometer'', ''translation_y''),
           (''x_micrometer'', ''len_x_micrometer'', ''translation_x'')]"

definition roi_columns :: "string list" where
  "roi_columns = [''x_micrometer'', ''y_micrometer'', ''z_micrometer'',
     ''len_x_micrometer'', ''len_y_micrometer'', ''len_z_micrometer'']"

text \<open>
  \<open>AnnData(X, obs, var)\<close>: the table with the given row names, column names and rows
  of numbers, used to write down concrete tables.
\<close>

definition AnnData :: "string list \<Rightarrow> (string \<times> real list) list \<Rightarrow> anndata" where
  "AnnData columns rows =
     \<lparr>obs_names = map fst rows, var_names = columns,
      X_cell = (\<lambda>roi column.
         case (map_of rows roi, first_index columns column) of
           (Some r, Some j) \<Rightarrow> Num (r ! j)
         | _ \<Rightarrow> NaN)\<rparr>"

section \<open>Properties of the well identifiers\<close>

lemma extract_all_Inr:
  "map extract_row_col_from_well_id wells = map Inr rcs \<Longrightarrow> extract_all wells = Inr rcs"
proof (induction wells arbitrary: rcs)
  case Nil
  then show ?case by simp
next
  case (Cons w ws)
  then obtain rc rcs' where rcs: "rcs = rc # rcs'" by (cases rcs) auto
  with Cons.prems have "extract_row_col_from_well_id w = Inr rc"
    and "map extract_row_col_from_well_id ws = map Inr rcs'" by auto
  with Cons.IH rcs show ?case by simp
qed

text \<open>
  Claim C5. For a row of length 1 and a column of length 2 the well id is their
  concatenation; for a row of length 2 and a column of length 3 it is
  \<open>row[0] + col[0:2] + "." + row[1] + col[2]\<close>; the three examples of the specification
  evaluate as stated.
\<close>

theorem get_filename_well_id_forms:
  "(length row = 1 \<and> length col = 2 \<longrightarrow> get_filename_well_id row col = Inr (row @ col)) \<and>
   (length row = 2 \<and> length col = 3 \<longrightarrow>
      get_filename_well_id row col = Inr ([row ! 0] @ take 2 col @ ''.'' @ [row ! 1] @ [col ! 2])) \<and>
   get_filename_well_id ''A'' ''01'' = Inr ''A01'' \<and>
   get_filename_well_id ''Aa'' ''011'' = Inr ''A01.a1'' \<and>
   get_filename_well_id ''Bc'' ''023'' = Inr ''B02.c3''"
  by (simp add: get_filename_well_id_def)

theorem get_filename_well_id_forms_witness:
  "length ''H'' = 1 \<and> length ''06'' = 2 \<and> get_filename_well_id ''H'' ''06'' = Inr ''H06'' \<and>
   length ''Hd'' = 2 \<and> length ''082'' = 3 \<and> get_filename_well_id ''Hd'' ''082'' = Inr ''H08.d2''"
  using get_filename_well_id_forms [of "''H''" "''06''"]
    get_filename_well_id_forms [of "''Hd''" "''082''"]
  by simp

text \<open>
  Claim C6. \<open>get_filename_well_id\<close> raises \<open>NotImplementedError\<close> for every pair
  of lengths other than (1, 2) and (2, 3), and \<open>_extract_row_col_from_well_id\<close> raises it
  for every well id that is neither of length 3 without a dot nor of length 6 with exactly
  one dot.
\<close>

theorem unsupported_well_shapes_fail:
  "(\<not> (length row = 1 \<and> length col = 2) \<and> \<not> (length row = 2 \<and> length col = 3) \<longrightarrow>
      get_filename_well_id row col = Inl NotImplementedError) \<and>
   (\<not> (length well_id = 3 \<and> count_list well_id (CHR ''.'') = 0) \<and>
    \<not> (length well_id = 6 \<and> count_list well_id (CHR ''.'') = 1) \<longrightarrow>
      extract_row_col_from_well_id well_id = Inl NotImplementedError) \<and>
   get_filename_well_id ''A'' ''1'' = Inl NotImplementedError \<and>
   get_filename_well_id ''Aaa'' ''11'' = Inl NotImplementedError"
  by (simp add: get_filename_well_id_def extract_row_col_from_well_id_def)

theorem unsupported_well_shapes_fail_witness:
  "\<not> (length ''Aa'' = 1 \<and> length ''1234'' = 2) \<and> \<not> (length ''Aa'' = 2 \<and> length ''1234'' = 3) \<and>
   get_filename_well_id ''Aa'' ''1234'' = Inl NotImplementedError \<and>
   \<not> (length ''A01..1'' = 3 \<and> count_list ''A01..1'' (CHR ''.'') = 0) \<and>
   \<not> (length ''A01..1'' = 6 \<and> count_list ''A01..1'' (CHR ''.'') = 1) \<and>
   extract_row_col_from_well_id ''A01..1'' = Inl NotImplementedError"
  using unsupported_well_shapes_fail [of "''Aa''" "''1234''" "''A01..1''"]
  by simp




text \<open>
  Claim C7. When every well id of the list can be split (\<open>rcs\<close> are the pairs, in the
  order of the list), \<open>generate_row_col_split\<close> returns these pairs, each as often as
  it occurs, in ascending lexicographic order: by row first, then by column. On the list
  of the specification the result starts with \<open>("Aa", "013")\<close>.
\<close>

theorem generate_row_col_split_sorted:
  "(map extract_row_col_from_well_id wells = map Inr rcs \<longrightarrow>
      (\<exists>res. generate_row_col_split wells = Inr res \<and> mset res = mset rcs \<and>
         sorted_wrt (\<lambda>(r1, c1) (r2, c2). r1 < r2 \<or> (r1 = r2 \<and> c1 \<le> c2)) res)) \<and>
   generate_row_col_split
     [''B03.d1'', ''B05.b1'', ''B07.c4'', ''B07.c3'', ''B07.a4'', ''A01.a3'', ''H08.d2''] =
   Inr [(''Aa'', ''013''), (''Ba'', ''074''), (''Bb'', ''051''), (''Bc'', ''073''),
        (''Bc'', ''074''), (''Bd'', ''031''), (''Hd'', ''082'')]"
proof (intro conjI impI)
  assume dec: "map extract_row_col_from_well_id wells = map Inr rcs"
  have lex: "(\<lambda>(p::string \<times> string) q. p \<le> q) =
      (\<lambda>(r1, c1) (r2, c2). r1 < r2 \<or> (r1 = r2 \<and> c1 \<le> c2))"
    by (auto simp: fun_eq_iff less_eq_prod_def)
  have "sorted (sort rcs)" by simp
  then have "sorted_wrt (\<lambda>(r1, c1) (r2, c2). r1 < r2 \<or> (r1 = r2 \<and> c1 \<le> c2)) (sort rcs)"
    using lex by (simp add: sorted_wrt_iff_nth_less case_prod_beta less_eq_prod_def)
  moreover have "generate_row_col_split wells = Inr (sort rcs)"
    by (simp add: generate_row_col_split_def extract_all_Inr [OF dec])
  ultimately show "\<exists>res. generate_row_col_split wells = Inr res \<and> mset res = mset rcs \<and>
      sorted_wrt (\<lambda>(r1, c1) (r2, c2). r1 < r2 \<or> (r1 = r2 \<and> c1 \<le> c2)) res"
    by simp
next
  show "generate_row_col_split
     [''B03.d1'', ''B05.b1'', ''B07.c4'', ''B07.c3'', ''B07.a4'', ''A01.a3'', ''H08.d2''] =
   Inr [(''Aa'', ''013''), (''Ba'', ''074''), (''Bb'', ''051''), (''Bc'', ''073''),
        (''Bc'', ''074''), (''Bd'', ''031''), (''Hd'', ''082'')]"
    by code_simp
qed

theorem generate_row_col_split_sorted_witness:
  "map extract_row_col_from_well_id [''B03'', ''A01.a3'', ''A01''] =
     map Inr [(''B'', ''03''), (''Aa'', ''013''), (''A'', ''01'')] \<and>
   (\<exists>res. generate_row_col_split [''B03'', ''A01.a3'', ''A01''] = Inr res \<and>
      mset res = mset [(''B'', ''03''), (''Aa'', ''013''), (''A'', ''01'')] \<and>
      sorted_wrt (\<lambda>(r1, c1) (r2, c2). r1 < r2 \<or> (r1 = r2 \<and> c1 \<le> c2)) res)"
proof -
  have h: "map extract_row_col_from_well_id [''B03'', ''A01.a3'', ''A01''] =
     map Inr [(''B'', ''03''), (''Aa'', ''013''), (''A'', ''01'')]"
    by (simp add: extract_row_col_from_well_id_def)
  from generate_row_col_split_sorted [of "[''B03'', ''A01.a3'', ''A01'']"
      "[(''B'', ''03''), (''Aa'', ''013''), (''A'', ''01'')]"] h
  show ?thesis by blast
qed

section \<open>Properties of the image-size check\<close>

lemma img_size_loop_Some:
  "img_size_loop (Some r) img list_indices =
     (if \<forall>ind \<in> set list_indices. (e_y ind - s_y ind, e_x ind - s_x ind) = r
      then Inr (if list_indices = [] then img else Some r)
      else Inl InconsistentImageSizes)"
  by (induction list_indices arbitrary: img) (auto simp: Let_def)

text \<open>
  Claim C3, as stated, has the check fail when two windows differ in extent on any axis.
  The loop compares \<open>(indices[3] - indices[2], indices[5] - indices[4])\<close> only, the
  image size in y and x: two windows of the same y and x extents and different z
  extents pass.
\<close>

theorem img_size_ignores_z_counterexample:
  "e_z \<lparr>s_z = 0, e_z = 1, s_y = 0, e_y = 10, s_x = 0, e_x = 10\<rparr>
     - s_z \<lparr>s_z = 0, e_z = 1, s_y = 0, e_y = 10, s_x = 0, e_x = 10\<rparr>
   \<noteq> e_z \<lparr>s_z = 0, e_z = 2, s_y = 0, e_y = 10, s_x = 10, e_x = 20\<rparr>
     - s_z \<lparr>s_z = 0, e_z = 2, s_y = 0, e_y = 10, s_x = 10, e_x = 20\<rparr> \<and>
   illumination_correction_img_size
     [\<lparr>s_z = 0, e_z = 1, s_y = 0, e_y = 10, s_x = 0, e_x = 10\<rparr>,
      \<lparr>s_z = 0, e_z = 2, s_y = 0, e_y = 10, s_x = 10, e_x = 20\<rparr>] = Inr (10, 10)"
  by (simp add: illumination_correction_img_size_def)

text \<open>
  Claim C3, amended. The computation fails with ``inconsistent image sizes'' if and only
  if two windows of the list differ in their extent \<open>end - start\<close> on the y axis or on
  the x axis; when all windows have the same y and x extents this error is not raised.
\<close>

theorem inconsistent_image_sizes_iff:
  "(illumination_correction_img_size list_indices = Inl InconsistentImageSizes) =
     (\<exists>a \<in> set list_indices. \<exists>b \<in> set list_indices.
        e_y a - s_y a \<noteq> e_y b - s_y b \<or> e_x a - s_x a \<noteq> e_x b - s_x b)"
proof (cases list_indices)
  case Nil
  then show ?thesis by (simp add: illumination_correction_img_size_def)
next
  case (Cons ind rest)
  then show ?thesis
    by (auto simp: illumination_correction_img_size_def img_size_loop_Some Let_def)
qed

theorem inconsistent_image_sizes_iff_witness:
  "illumination_correction_img_size
     [\<lparr>s_z = 0, e_z = 1, s_y = 0, e_y = 10, s_x = 0, e_x = 10\<rparr>,
      \<lparr>s_z = 0, e_z = 1, s_y = 10, e_y = 20, s_x = 0, e_x = 12\<rparr>] = Inl InconsistentImageSizes"
  using inconsistent_image_sizes_iff
    [of "[\<lparr>s_z = 0, e_z = 1, s_y = 0, e_y = 10, s_x = 0, e_x = 10\<rparr>,
          \<lparr>s_z = 0, e_z = 1, s_y = 10, e_y = 20, s_x = 0, e_x = 12\<rparr>]"]
  by auto

section \<open>Properties of the filename parser\<close>

subsection \<open>Splitting and joining\<close>



lemma split_on_single: "sep \<notin> set x \<Longrightarrow> split_on sep x = [x]"
  by (induction x) auto



subsection \<open>Evaluating the split on digit runs\<close>

lemma re_split_digits_Nil: "re_split_digits [] = [[]]"
  by (simp add: re_split_digits.simps)

lemma re_split_digits_not_Nil: "re_split_digits s \<noteq> []"
  by (subst re_split_digits.simps) (simp add: Let_def)

lemma re_split_digits_text:
  assumes "\<not> is_digit_char c"
  shows "re_split_digits (c # cs) =
    (case re_split_digits cs of piece # pieces \<Rightarrow> (c # piece) # pieces | [] \<Rightarrow> [[c]])"
proof -
  define r where "r = re_split_digits cs"
  have a: "re_split_digits (c # cs) =
      (if dropWhile (\<lambda>c. \<not> is_digit_char c) cs = [] then [c # takeWhile (\<lambda>c. \<not> is_digit_char c) cs]
       else (c # takeWhile (\<lambda>c. \<not> is_digit_char c) cs)
            # takeWhile is_digit_char (dropWhile (\<lambda>c. \<not> is_digit_char c) cs)
            # re_split_digits (dropWhile is_digit_char (dropWhile (\<lambda>c. \<not> is_digit_char c) cs)))"
    using assms by (subst re_split_digits.simps) (simp add: Let_def)
  have b: "r =
      (if dropWhile (\<lambda>c. \<not> is_digit_char c) cs = [] then [takeWhile (\<lambda>c. \<not> is_digit_char c) cs]
       else takeWhile (\<lambda>c. \<not> is_digit_char c) cs
            # takeWhile is_digit_char (dropWhile (\<lambda>c. \<not> is_digit_char c) cs)
            # re_split_digits (dropWhile is_digit_char (dropWhile (\<lambda>c. \<not> is_digit_char c) cs)))"
    unfolding r_def by (subst re_split_digits.simps) (simp add: Let_def)
  have "re_split_digits (c # cs) = (case r of piece # pieces \<Rightarrow> (c # piece) # pieces | [] \<Rightarrow> [[c]])"
    unfolding a b by simp
  then show ?thesis by (simp add: r_def)
qed

lemma re_split_digits_digit:
  "is_digit_char c \<Longrightarrow>
   re_split_digits (c # cs) =
     [] # (c # takeWhile is_digit_char cs) # re_split_digits (dropWhile is_digit_char cs)"
  by (subst re_split_digits.simps) (simp add: Let_def)

lemmas re_split_eval = re_split_digits_Nil re_split_digits_text re_split_digits_digit is_digit_char_def

text \<open>The pieces end in the empty string exactly when the string is empty or ends in a digit.\<close>

lemma last_append3: "ys \<noteq> [] \<Longrightarrow> last (xs @ ys @ zs) = (if zs = [] then last ys else last zs)"
  by simp

lemma re_split_digits_no_digit:
  assumes "dropWhile (\<lambda>c. \<not> is_digit_char c) s = []"
  shows "re_split_digits s = [s]"
proof -
  from assms have "\<forall>c \<in> set s. \<not> is_digit_char c"
    by (simp add: dropWhile_eq_Nil_conv)
  then have t: "takeWhile (\<lambda>c. \<not> is_digit_char c) s = s" by simp
  show ?thesis
    by (subst re_split_digits.simps) (simp only: Let_def assms t refl if_True)
qed

lemma re_split_digits_some_digit:
  assumes "dropWhile (\<lambda>c. \<not> is_digit_char c) s \<noteq> []"
  shows "re_split_digits s =
    takeWhile (\<lambda>c. \<not> is_digit_char c) s
    # takeWhile is_digit_char (dropWhile (\<lambda>c. \<not> is_digit_char c) s)
    # re_split_digits (dropWhile is_digit_char (dropWhile (\<lambda>c. \<not> is_digit_char c) s))"
  by (subst re_split_digits.simps) (simp only: Let_def assms if_False)

lemma last_re_split_digits_step:
  assumes ne: "dropWhile (\<lambda>c. \<not> is_digit_char c) s \<noteq> []"
    and ih: "(last (re_split_digits (dropWhile is_digit_char (dropWhile (\<lambda>c. \<not> is_digit_char c) s))) = [])
       = (dropWhile is_digit_char (dropWhile (\<lambda>c. \<not> is_digit_char c) s) = []
          \<or> is_digit_char (last (dropWhile is_digit_char (dropWhile (\<lambda>c. \<not> is_digit_char c) s))))"
  shows "(last (re_split_digits s) = []) = (s = [] \<or> is_digit_char (last s))"
proof -
  define pre where "pre = takeWhile (\<lambda>c. \<not> is_digit_char c) s"
  define rest where "rest = dropWhile (\<lambda>c. \<not> is_digit_char c) s"
  define digits where "digits = takeWhile is_digit_char rest"
  define rest' where "rest' = dropWhile is_digit_char rest"
  have e: "s = pre @ digits @ rest'"
    by (simp add: pre_def rest_def digits_def rest'_def)
  have rne: "rest \<noteq> []" using ne by (simp add: rest_def)
  have "\<not> \<not> is_digit_char (hd (dropWhile (\<lambda>c. \<not> is_digit_char c) s))"
    using ne by (rule hd_dropWhile)
  then have "is_digit_char (hd rest)" by (simp add: rest_def)
  then have dne: "digits \<noteq> []"
    using rne by (cases rest) (simp_all add: digits_def)
  have "last digits \<in> set digits" using dne by (rule last_in_set)
  then have dlast: "is_digit_char (last digits)"
    unfolding digits_def by (rule set_takeWhileD [THEN conjunct2])
  have u: "re_split_digits s = pre # digits # re_split_digits rest'"
    unfolding pre_def digits_def rest'_def rest_def by (rule re_split_digits_some_digit [OF ne])
  have l1: "last (re_split_digits s) = last (re_split_digits rest')"
    using re_split_digits_not_Nil [of rest'] by (simp add: u)
  have l2: "last s = (if rest' = [] then last digits else last rest')"
    unfolding e by (rule last_append3 [OF dne])
  have ih': "(last (re_split_digits rest') = []) = (rest' = [] \<or> is_digit_char (last rest'))"
    using ih by (simp only: rest'_def rest_def)
  have sne: "s \<noteq> []" using dne by (simp add: e)
  show ?thesis
    unfolding l1 ih' l2 using sne dlast by simp
qed

lemma last_re_split_digits:
  "(last (re_split_digits s) = []) = (s = [] \<or> is_digit_char (last s))"
proof (induction s rule: re_split_digits.induct)
  case (1 s)
  show ?case
  proof (cases "dropWhile (\<lambda>c. \<not> is_digit_char c) s = []")
    case True
    then have all: "\<forall>c \<in> set s. \<not> is_digit_char c"
      by (simp add: dropWhile_eq_Nil_conv)
    have "s \<noteq> [] \<Longrightarrow> \<not> is_digit_char (last s)"
      using all last_in_set [of s] by blast
    then show ?thesis
      unfolding re_split_digits_no_digit [OF True] by auto
  next
    case False
    show ?thesis
      by (rule last_re_split_digits_step [OF False "1.IH" [OF refl refl False]])
  qed
qed

lemma isdigit_eval:
  "isdigit s = (s \<noteq> [] \<and> (\<forall>c \<in> set s. c \<in> set ''0123456789'' \<or> c = CHR 0xB2 \<or> c = CHR 0xB3 \<or> c = CHR 0xB9))"
  by (auto simp: isdigit_def is_unicode_digit_def is_digit_char_def list_all_iff)

lemma chars_eval:
  "\<not> is_digit_char (CHR 0xB2)" "isdigit [CHR 0xB2]"
  by (simp_all add: isdigit_eval is_digit_char_def)

subsection \<open>The loop over the metadata\<close>

lemma map_upd_add_rev:
  "m(k \<mapsto> v) ++ map_of (rev kvs) = m ++ map_of (rev ((k, v) # kvs))"
  by (rule ext) (simp add: map_add_def split: option.splits)

lemma fill_output_good:
  "even (length metadata) \<Longrightarrow>
   \<forall>(key, value) \<in> set (key_value_pairs metadata). \<not> isdigit key \<and> isdigit value \<Longrightarrow>
   fill_output filename out metadata = Inr (out ++ map_of (rev (key_value_pairs metadata)))"
proof (induction filename out metadata rule: fill_output.induct)
  case (1 filename out)
  then show ?case by simp
next
  case (2 filename out key)
  then show ?case by simp
next
  case (3 filename out key "value" metadata)
  from "3.prems" have ok: "\<not> (isdigit key \<or> \<not> isdigit value)"
    and ev: "even (length metadata)"
    and rest: "\<forall>(key, value) \<in> set (key_value_pairs metadata). \<not> isdigit key \<and> isdigit value"
    by auto
  have "fill_output filename (out(key \<mapsto> value)) metadata =
      Inr (out(key \<mapsto> value) ++ map_of (rev (key_value_pairs metadata)))"
    by (rule "3.IH" [OF ok ev rest])
  moreover have "out(key \<mapsto> value) ++ map_of (rev (key_value_pairs metadata)) =
      out ++ map_of (rev (key_value_pairs (key # value # metadata)))"
    by (simp only: key_value_pairs.simps map_upd_add_rev)
  ultimately show ?case using ok by (simp only: fill_output.simps if_False)
qed

lemma fill_output_bad:
  "even (length metadata) \<Longrightarrow>
   \<exists>(key, value) \<in> set (key_value_pairs metadata). isdigit key \<or> \<not> isdigit value \<Longrightarrow>
   \<exists>key value. (key, value) \<in> set (key_value_pairs metadata) \<and> (isdigit key \<or> \<not> isdigit value) \<and>
     fill_output filename out metadata = Inl (WrongKeyValue filename key value)"
proof (induction filename out metadata rule: fill_output.induct)
  case (1 filename out)
  then show ?case by simp
next
  case (2 filename out key)
  then show ?case by simp
next
  case (3 filename out key "value" metadata)
  show ?case
  proof (cases "isdigit key \<or> \<not> isdigit value")
    case True
    then have "fill_output filename out (key # value # metadata) = Inl (WrongKeyValue filename key value)"
      by simp
    with True show ?thesis by (intro exI [of _ key] exI [of _ "value"]) simp
  next
    case False
    from "3.prems" False have ev: "even (length metadata)"
      and ex: "\<exists>(key, value) \<in> set (key_value_pairs metadata). isdigit key \<or> \<not> isdigit value"
      by auto
    from "3.IH" [OF False ev ex] obtain k v where
      kv: "(k, v) \<in> set (key_value_pairs metadata)" "isdigit k \<or> \<not> isdigit v"
        "fill_output filename (out(key \<mapsto> value)) metadata = Inl (WrongKeyValue filename k v)"
      by blast
    from kv False show ?thesis by (intro exI [of _ k] exI [of _ v]) simp
  qed
qed

lemma length_key_value_pairs: "length (key_value_pairs metadata) = length metadata div 2"
  by (induction metadata rule: key_value_pairs.induct) auto

lemma length_13_butlast:
  "length metadata = 13 \<Longrightarrow> even (length (butlast metadata)) \<and> length (key_value_pairs (butlast metadata)) = 6"
  by (simp add: length_key_value_pairs)

lemma map_of_rev_distinct:
  "distinct (map fst pairs) \<Longrightarrow> (key, value) \<in> set pairs \<Longrightarrow> (m ++ map_of (rev pairs)) key = Some value"
proof -
  assume d: "distinct (map fst pairs)" and i: "(key, value) \<in> set pairs"
  have "distinct (map fst (rev pairs))" using d by (simp add: rev_map [symmetric])
  moreover have "(key, value) \<in> set (rev pairs)" using i by simp
  ultimately have "map_of (rev pairs) key = Some value" by (rule map_of_is_SomeI)
  then show ?thesis by (simp add: map_add_def)
qed

subsection \<open>Folder and extension\<close>








text \<open>A plain file name \<open>base.ext\<close> is cut to \<open>base\<close>.\<close>

lemma rfind_last_dot:
  "CHR ''.'' \<notin> set ext \<Longrightarrow> rfind (CHR ''.'') (base @ CHR ''.'' # ext) = int (length base)"
proof -
  assume e: "CHR ''.'' \<notin> set ext"
  have "takeWhile (\<lambda>x. x \<noteq> CHR ''.'') (rev ext @ CHR ''.'' # rev base) =
      rev ext @ takeWhile (\<lambda>x. x \<noteq> CHR ''.'') (CHR ''.'' # rev base)"
    by (rule takeWhile_append2) (use e in auto)
  then show ?thesis by (simp add: rfind_def)
qed

lemma with_suffix_empty_name_extension:
  assumes "CHR ''/'' \<notin> set base" and "CHR ''/'' \<notin> set ext"
    and "base \<noteq> []" and "ext \<noteq> []" and "CHR ''.'' \<notin> set ext"
  shows "with_suffix_empty_name (base @ CHR ''.'' # ext) = Inr base"
proof -
  have "CHR ''/'' \<notin> set (base @ CHR ''.'' # ext)" using assms(1,2) by simp
  then have s: "split_on (CHR ''/'') (base @ CHR ''.'' # ext) = [base @ CHR ''.'' # ext]"
    by (rule split_on_single)
  have d: "base @ CHR ''.'' # ext \<noteq> ''.''"
    using assms(3) by (cases base) auto
  have n: "path_name (base @ CHR ''.'' # ext) = base @ CHR ''.'' # ext"
    unfolding path_name_def s using d by simp
  have x: "path_suffix (base @ CHR ''.'' # ext) = CHR ''.'' # ext"
    unfolding path_suffix_def rfind_last_dot [OF assms(5)] Let_def using assms(3,4) by simp
  show ?thesis
    unfolding with_suffix_empty_name_def n x Let_def by simp
qed

subsection \<open>Plate and well\<close>

lemma parse_filename_fields:
  "with_suffix_empty_name filename = Inr name \<Longrightarrow>
   3 \<le> length (split_on (CHR ''_'') name) \<Longrightarrow>
   parse_filename filename =
     (let flds = split_on (CHR ''_'') name;
          prefix_fields = take (length flds - 2) flds;
          output = [''plate_prefix'' \<mapsto> join_with (CHR ''_'') prefix_fields,
                    ''plate'' \<mapsto> get_plate_name (join_with (CHR ''_'') prefix_fields),
                    ''well'' \<mapsto> flds ! (length flds - 2)]
      in assign_TFLAZC name output (last flds))"
  by (simp add: parse_filename_def Let_def)






subsection \<open>The metadata token\<close>

text \<open>
  Claim C8, as stated, has a successful parse return all six key/value pairs. The pairs
  are stored in one dictionary, so a key that occurs twice keeps its last value only: the
  token \<open>T1T2F3L4A5Z6\<close> has thirteen pieces, the last one empty, no key of digits and
  no value that is not digits, and the pair of \<open>T\<close> and \<open>1\<close> is not returned.
\<close>

theorem repeated_key_counterexample:
  "re_split_digits ''T1T2F3L4A5Z6'' =
     [''T'', ''1'', ''T'', ''2'', ''F'', ''3'', ''L'', ''4'', ''A'', ''5'', ''Z'', ''6'', ''''] \<and>
   parse_filename ''p_B03_T1T2F3L4A5Z6.tif'' =
     Inr [''plate_prefix'' \<mapsto> ''p'', ''plate'' \<mapsto> ''p'', ''well'' \<mapsto> ''B03'',
          ''T'' \<mapsto> ''2'', ''F'' \<mapsto> ''3'', ''L'' \<mapsto> ''4'', ''A'' \<mapsto> ''5'', ''Z'' \<mapsto> ''6'']"
proof
  show s: "re_split_digits ''T1T2F3L4A5Z6'' =
     [''T'', ''1'', ''T'', ''2'', ''F'', ''3'', ''L'', ''4'', ''A'', ''5'', ''Z'', ''6'', '''']"
    by (simp add: re_split_eval)
  have w: "with_suffix_empty_name ''p_B03_T1T2F3L4A5Z6.tif'' = Inr ''p_B03_T1T2F3L4A5Z6''"
    by (simp add: with_suffix_empty_name_def path_name_def path_suffix_def rfind_def Let_def)
  have d: "isdigit ''1''" "isdigit ''2''" "isdigit ''3''" "isdigit ''4''" "isdigit ''5''" "isdigit ''6''"
    "\<not> isdigit ''T''" "\<not> isdigit ''F''" "\<not> isdigit ''L''" "\<not> isdigit ''A''" "\<not> isdigit ''Z''"
    by (simp_all add: isdigit_eval)
  have p: "get_plate_name ''p'' = ''p''"
    by (simp add: get_plate_name_def)
  show "parse_filename ''p_B03_T1T2F3L4A5Z6.tif'' =
     Inr [''plate_prefix'' \<mapsto> ''p'', ''plate'' \<mapsto> ''p'', ''well'' \<mapsto> ''B03'',
          ''T'' \<mapsto> ''2'', ''F'' \<mapsto> ''3'', ''L'' \<mapsto> ''4'', ''A'' \<mapsto> ''5'', ''Z'' \<mapsto> ''6'']"
    by (simp add: parse_filename_def w assign_TFLAZC_def Let_def s d p)
qed

text \<open>
  Claim C8, amended. Let \<open>name\<close> be the file name with its folder and its extension cut
  off, of at least three fields between underscores, and let its last field, the
  metadata token, be split on digit runs: the pieces end in the empty string exactly when
  the token is empty or ends in a digit; when the pieces do not end in the empty string
  or are not thirteen, parsing fails and names the token; when they do and some key is
  all digits or some value is not, parsing fails and names a key and a value; otherwise
  there are six pairs and parsing returns the dictionary of \<open>plate_prefix\<close>, \<open>plate\<close>
  and \<open>well\<close> updated with the six pairs in their order, so that every key is bound to
  the value of its last occurrence, and all six pairs are returned when the six keys are
  distinct.
\<close>

theorem parse_filename_TFLAZC:
  assumes "with_suffix_empty_name filename = Inr name"
    and "flds = split_on (CHR ''_'') name" and "3 \<le> length flds"
    and "metadata = re_split_digits (last flds)"
    and "pairs = key_value_pairs (butlast metadata)"
    and "header = [''plate_prefix'' \<mapsto> join_with (CHR ''_'') (take (length flds - 2) flds),
                   ''plate'' \<mapsto> get_plate_name (join_with (CHR ''_'') (take (length flds - 2) flds)),
                   ''well'' \<mapsto> flds ! (length flds - 2)]"
  shows
    "((last metadata = []) = (last flds = [] \<or> is_digit_char (last (last flds)))) \<and>
     (last metadata \<noteq> [] \<or> length metadata \<noteq> 13 \<longrightarrow>
        parse_filename filename = Inl (WrongTFLAZC name (last flds))) \<and>
     (last metadata = [] \<and> length metadata = 13 \<and>
      (\<exists>(key, value) \<in> set pairs. isdigit key \<or> \<not> isdigit value) \<longrightarrow>
        (\<exists>key value. parse_filename filename = Inl (WrongKeyValue name key value))) \<and>
     (last metadata = [] \<and> length metadata = 13 \<and>
      (\<forall>(key, value) \<in> set pairs. \<not> isdigit key \<and> isdigit value) \<longrightarrow>
        length pairs = 6 \<and>
        parse_filename filename = Inr (header ++ map_of (rev pairs)) \<and>
        (distinct (map fst pairs) \<longrightarrow>
           (\<forall>(key, value) \<in> set pairs. (header ++ map_of (rev pairs)) key = Some value)))"
proof -
  have pf: "parse_filename filename = assign_TFLAZC name header (last flds)"
    using parse_filename_fields [OF assms(1)] assms(2,3,6) by (simp add: Let_def)
  have a: "last metadata \<noteq> [] \<or> length metadata \<noteq> 13 \<Longrightarrow>
      assign_TFLAZC name header (last flds) = Inl (WrongTFLAZC name (last flds))"
    using assms(4) by (auto simp: assign_TFLAZC_def Let_def)
  have b: "last metadata = [] \<and> length metadata = 13 \<Longrightarrow>
      assign_TFLAZC name header (last flds) = fill_output name header (butlast metadata)"
    using assms(4) by (auto simp: assign_TFLAZC_def Let_def)
  show ?thesis
  proof (intro conjI impI)
    show "(last metadata = []) = (last flds = [] \<or> is_digit_char (last (last flds)))"
      unfolding assms(4) by (rule last_re_split_digits)
  next
    assume "last metadata \<noteq> [] \<or> length metadata \<noteq> 13"
    then show "parse_filename filename = Inl (WrongTFLAZC name (last flds))"
      using pf a by simp
  next
    assume h: "last metadata = [] \<and> length metadata = 13 \<and>
      (\<exists>(key, value) \<in> set pairs. isdigit key \<or> \<not> isdigit value)"
    then have ev: "even (length (butlast metadata))" using length_13_butlast by blast
    from h have ex: "\<exists>(key, value) \<in> set (key_value_pairs (butlast metadata)).
        isdigit key \<or> \<not> isdigit value" by (simp add: assms(5))
    from fill_output_bad [OF ev ex, of name header] h pf b
    show "\<exists>key value. parse_filename filename = Inl (WrongKeyValue name key value)"
      by auto
  next
    assume h: "last metadata = [] \<and> length metadata = 13 \<and>
      (\<forall>(key, value) \<in> set pairs. \<not> isdigit key \<and> isdigit value)"
    then have ev: "even (length (butlast metadata))" using length_13_butlast by blast
    from h show "length pairs = 6" using length_13_butlast by (simp add: assms(5))
    from h have ok: "\<forall>(key, value) \<in> set (key_value_pairs (butlast metadata)).
        \<not> isdigit key \<and> isdigit value" by (simp add: assms(5))
    from fill_output_good [OF ev ok, of name header] h pf b
    show "parse_filename filename = Inr (header ++ map_of (rev pairs))"
      by (simp add: assms(5))
  next
    assume "distinct (map fst pairs)"
    then show "\<forall>(key, value) \<in> set pairs. (header ++ map_of (rev pairs)) key = Some value"
      using map_of_rev_distinct by fastforce
  qed
qed

theorem parse_filename_TFLAZC_witness:
  "parse_filename ''210305NAR005AAN_210416_164828_B11_T0001F006L01A04Z14C01K01.tif'' =
     Inl (WrongTFLAZC ''210305NAR005AAN_210416_164828_B11_T0001F006L01A04Z14C01K01''
            ''T0001F006L01A04Z14C01K01'') \<and>
   (\<exists>key value. parse_filename (''p_B03_T0001F006L01A04Z14'' @ [CHR 0xB2] @ ''01.png'') =
      Inl (WrongKeyValue (''p_B03_T0001F006L01A04Z14'' @ [CHR 0xB2] @ ''01'') key value)) \<and>
   parse_filename ''/data/p_B03_T0001F036L01A01Z18C01.png'' =
     Inr [''plate_prefix'' \<mapsto> ''p'', ''plate'' \<mapsto> ''p'', ''well'' \<mapsto> ''B03'',
          ''T'' \<mapsto> ''0001'', ''F'' \<mapsto> ''036'', ''L'' \<mapsto> ''01'',
          ''A'' \<mapsto> ''01'', ''Z'' \<mapsto> ''18'', ''C'' \<mapsto> ''01'']"
proof (intro conjI)
  have w: "with_suffix_empty_name ''210305NAR005AAN_210416_164828_B11_T0001F006L01A04Z14C01K01.tif'' =
      Inr ''210305NAR005AAN_210416_164828_B11_T0001F006L01A04Z14C01K01''"
    by (simp add: with_suffix_empty_name_def path_name_def path_suffix_def rfind_def Let_def)
  have f: "[''210305NAR005AAN'', ''210416'', ''164828'', ''B11'', ''T0001F006L01A04Z14C01K01'']
      = split_on (CHR ''_'') ''210305NAR005AAN_210416_164828_B11_T0001F006L01A04Z14C01K01''"
    by simp
  have n: "3 \<le> length [''210305NAR005AAN'', ''210416'', ''164828'', ''B11'', ''T0001F006L01A04Z14C01K01'']"
    by simp
  have m: "[''T'', ''0001'', ''F'', ''006'', ''L'', ''01'', ''A'', ''04'', ''Z'', ''14'', ''C'', ''01'',
            ''K'', ''01'', ''''] =
      re_split_digits (last [''210305NAR005AAN'', ''210416'', ''164828'', ''B11'', ''T0001F006L01A04Z14C01K01''])"
    by (simp add: re_split_eval)
  from parse_filename_TFLAZC [OF w f n m refl refl]
  show "parse_filename ''210305NAR005AAN_210416_164828_B11_T0001F006L01A04Z14C01K01.tif'' =
     Inl (WrongTFLAZC ''210305NAR005AAN_210416_164828_B11_T0001F006L01A04Z14C01K01''
            ''T0001F006L01A04Z14C01K01'')"
    by simp
next
  have w: "with_suffix_empty_name (''p_B03_T0001F006L01A04Z14'' @ [CHR 0xB2] @ ''01.png'') =
      Inr (''p_B03_T0001F006L01A04Z14'' @ [CHR 0xB2] @ ''01'')"
    by (simp add: with_suffix_empty_name_def path_name_def path_suffix_def rfind_def Let_def)
  have f: "[''p'', ''B03'', ''T0001F006L01A04Z14'' @ [CHR 0xB2] @ ''01'']
      = split_on (CHR ''_'') (''p_B03_T0001F006L01A04Z14'' @ [CHR 0xB2] @ ''01'')"
    by simp
  have n: "3 \<le> length [''p'', ''B03'', ''T0001F006L01A04Z14'' @ [CHR 0xB2] @ ''01'']"
    by simp
  have m: "[''T'', ''0001'', ''F'', ''006'', ''L'', ''01'', ''A'', ''04'', ''Z'', ''14'', [CHR 0xB2], ''01'', ''''] =
      re_split_digits (last [''p'', ''B03'', ''T0001F006L01A04Z14'' @ [CHR 0xB2] @ ''01''])"
    by (simp add: re_split_eval)
  from parse_filename_TFLAZC [OF w f n m refl refl] chars_eval
  show "\<exists>key value. parse_filename (''p_B03_T0001F006L01A04Z14'' @ [CHR 0xB2] @ ''01.png'') =
      Inl (WrongKeyValue (''p_B03_T0001F006L01A04Z14'' @ [CHR 0xB2] @ ''01'') key value)"
    by simp
next
  have w: "with_suffix_empty_name ''/data/p_B03_T0001F036L01A01Z18C01.png'' =
      Inr ''p_B03_T0001F036L01A01Z18C01''"
    by (simp add: with_suffix_empty_name_def path_name_def path_suffix_def rfind_def Let_def)
  have f: "[''p'', ''B03'', ''T0001F036L01A01Z18C01'']
      = split_on (CHR ''_'') ''p_B03_T0001F036L01A01Z18C01''"
    by simp
  have n: "3 \<le> length [''p'', ''B03'', ''T0001F036L01A01Z18C01'']"
    by simp
  have m: "[''T'', ''0001'', ''F'', ''036'', ''L'', ''01'', ''A'', ''01'', ''Z'', ''18'', ''C'', ''01'', ''''] =
      re_split_digits (last [''p'', ''B03'', ''T0001F036L01A01Z18C01''])"
    by (simp add: re_split_eval)
  have kv: "\<not> isdigit ''T''" "isdigit ''0001''" "\<not> isdigit ''F''" "isdigit ''036''"
    "\<not> isdigit ''L''" "isdigit ''01''" "\<not> isdigit ''A''"
    "\<not> isdigit ''Z''" "isdigit ''18''" "\<not> isdigit ''C''"
    by (simp_all add: isdigit_eval)
  have p: "get_plate_name ''p'' = ''p''"
    by (simp add: get_plate_name_def)
  from parse_filename_TFLAZC [OF w f n m refl refl] kv p
  have "parse_filename ''/data/p_B03_T0001F036L01A01Z18C01.png'' =
     Inr ([''plate_prefix'' \<mapsto> ''p'', ''plate'' \<mapsto> ''p'', ''well'' \<mapsto> ''B03''] ++
          map_of (rev [(''T'', ''0001''), (''F'', ''036''), (''L'', ''01''),
                       (''A'', ''01''), (''Z'', ''18''), (''C'', ''01'')]))"
    by simp
  also have "[''plate_prefix'' \<mapsto> ''p'', ''plate'' \<mapsto> ''p'', ''well'' \<mapsto> ''B03''] ++
          map_of (rev [(''T'', ''0001''), (''F'', ''036''), (''L'', ''01''),
                       (''A'', ''01''), (''Z'', ''18''), (''C'', ''01'')]) =
     [''plate_prefix'' \<mapsto> ''p'', ''plate'' \<mapsto> ''p'', ''well'' \<mapsto> ''B03'',
          ''T'' \<mapsto> ''0001'', ''F'' \<mapsto> ''036'', ''L'' \<mapsto> ''01'',
          ''A'' \<mapsto> ''01'', ''Z'' \<mapsto> ''18'', ''C'' \<mapsto> ''01'']"
    by (rule ext) (simp add: map_add_def)
  finally show "parse_filename ''/data/p_B03_T0001F036L01A01Z18C01.png'' =
     Inr [''plate_prefix'' \<mapsto> ''p'', ''plate'' \<mapsto> ''p'', ''well'' \<mapsto> ''B03'',
          ''T'' \<mapsto> ''0001'', ''F'' \<mapsto> ''036'', ''L'' \<mapsto> ''01'',
          ''A'' \<mapsto> ''01'', ''Z'' \<mapsto> ''18'', ''C'' \<mapsto> ''01'']" .
qed

section \<open>Properties of the registration of ROI tables\<close>

subsection \<open>Translation columns that are already there\<close>

lemma add_zero_translation_columns_present:
  "\<exists>c \<in> set translation_columns. c \<in> set (var_names ad_table) \<Longrightarrow>
     add_zero_translation_columns ad_table = Inl AlreadyTranslationColumns"
  by (auto simp: add_zero_translation_columns_def translation_columns_def list_ex_iff Let_def)

lemma collect_roi_tables_reference_fails:
  "map_of acquisitions reference_cycle = Some stored \<Longrightarrow>
   \<exists>c \<in> set translation_columns. c \<in> set (var_names stored) \<Longrightarrow>
   \<exists>e. collect_roi_tables columns_valid reference_cycle roi_tables acquisitions = Inl e"
proof (induction acquisitions arbitrary: roi_tables)
  case Nil
  then show ?case by simp
next
  case (Cons p acquisitions)
  obtain acq t where p: "p = (acq, t)" by (cases p)
  show ?case
  proof (cases "acq = reference_cycle")
    case True
    with Cons.prems p have "t = stored" by simp
    with Cons.prems(2) True p show ?thesis
      by (simp add: add_zero_translation_columns_present)
  next
    case False
    with Cons.prems p have "map_of acquisitions reference_cycle = Some stored" by simp
    from Cons.IH [OF this Cons.prems(2)] False p show ?thesis by simp
  qed
qed

text \<open>
  Claim C10. A table that has one of the columns \<open>translation_z\<close>,
  \<open>translation_y\<close>, \<open>translation_x\<close> makes \<open>add_zero_translation_columns\<close> raise
  its \<open>ValueError\<close>, with no table returned; and the task fails when the table stored
  for the reference cycle has such a column, whatever the other acquisitions hold and
  whatever \<open>are_ROI_table_columns_valid\<close> and \<open>reset_origin\<close> do.
\<close>

theorem existing_translation_columns_rejected:
  "((\<exists>c \<in> set translation_columns. c \<in> set (var_names ad_table)) \<longrightarrow>
      add_zero_translation_columns ad_table = Inl AlreadyTranslationColumns) \<and>
   (map_of acquisitions reference_cycle = Some stored \<and>
    (\<exists>c \<in> set translation_columns. c \<in> set (var_names stored)) \<longrightarrow>
      (\<exists>e. apply_registration_to_ROI_tables columns_valid reset_origin reference_cycle
              acquisitions = Inl e))"
proof (intro conjI impI)
  assume "\<exists>c \<in> set translation_columns. c \<in> set (var_names ad_table)"
  then show "add_zero_translation_columns ad_table = Inl AlreadyTranslationColumns"
    by (rule add_zero_translation_columns_present)
next
  assume "map_of acquisitions reference_cycle = Some stored \<and>
    (\<exists>c \<in> set translation_columns. c \<in> set (var_names stored))"
  then obtain e where
    "collect_roi_tables columns_valid reference_cycle [] acquisitions = Inl e"
    using collect_roi_tables_reference_fails by blast
  then show "\<exists>e. apply_registration_to_ROI_tables columns_valid reset_origin reference_cycle
      acquisitions = Inl e"
    by (simp add: apply_registration_to_ROI_tables_def bind_err_def)
qed

theorem existing_translation_columns_rejected_witness:
  "(\<exists>c \<in> set translation_columns.
       c \<in> set (var_names (AnnData (roi_columns @ [''translation_x'']) [(''FOV_1'', [0, 0, 0, 10, 10, 1, 0])]))) \<and>
   add_zero_translation_columns
     (AnnData (roi_columns @ [''translation_x'']) [(''FOV_1'', [0, 0, 0, 10, 10, 1, 0])])
     = Inl AlreadyTranslationColumns \<and>
   map_of [(0, AnnData (roi_columns @ [''translation_x'']) [(''FOV_1'', [0, 0, 0, 10, 10, 1, 0])])] 0
     = Some (AnnData (roi_columns @ [''translation_x'']) [(''FOV_1'', [0, 0, 0, 10, 10, 1, 0])]) \<and>
   (\<exists>e. apply_registration_to_ROI_tables (\<lambda>t. True) (\<lambda>t. t) 0
      [(0, AnnData (roi_columns @ [''translation_x'']) [(''FOV_1'', [0, 0, 0, 10, 10, 1, 0])])] = Inl e)"
proof -
  have h: "\<exists>c \<in> set translation_columns.
       c \<in> set (var_names (AnnData (roi_columns @ [''translation_x'']) [(''FOV_1'', [0, 0, 0, 10, 10, 1, 0])]))"
    by (simp add: translation_columns_def AnnData_def)
  show ?thesis
    using h existing_translation_columns_rejected
      [of "AnnData (roi_columns @ [''translation_x'']) [(''FOV_1'', [0, 0, 0, 10, 10, 1, 0])]"
          "[(0, AnnData (roi_columns @ [''translation_x'']) [(''FOV_1'', [0, 0, 0, 10, 10, 1, 0])])]"
          0
          "AnnData (roi_columns @ [''translation_x'']) [(''FOV_1'', [0, 0, 0, 10, 10, 1, 0])]"
          "\<lambda>t. True" "\<lambda>t. t"]
    by simp
qed

subsection \<open>The check of the ROI names\<close>

lemma index_eq_all:
  "index_eq xs ys = Inr eqs \<Longrightarrow> list_all (\<lambda>b. b) eqs = (xs = ys)"
proof -
  assume a: "index_eq xs ys = Inr eqs"
  then have len: "length xs = length ys" and eqs: "eqs = map2 (=) xs ys"
    by (auto simp: index_eq_def split: if_splits)
  have "list_all (\<lambda>b. b) eqs = (\<forall>(x, y) \<in> set (zip xs ys). x = y)"
    by (auto simp: eqs list_all_iff)
  also have "\<dots> = (xs = ys)"
    using len by (simp add: list_eq_iff_zip_eq)
  finally show ?thesis .
qed

lemma check_same_ROIs_Inr:
  "(check_same_ROIs reference_cycle rois roi_tables = Inr ()) =
     (\<forall>(acq, t) \<in> set roi_tables. obs_names t = rois)"
proof (induction roi_tables)
  case Nil
  then show ?case by simp
next
  case (Cons p roi_tables)
  obtain acq t where p: "p = (acq, t)" by (cases p)
  show ?case
  proof (cases "index_eq (obs_names t) rois")
    case (Inl e)
    then have "obs_names t \<noteq> rois" by (auto simp: index_eq_def split: if_splits)
    with Inl p show ?thesis by simp
  next
    case (Inr eqs)
    from index_eq_all [OF this] Inr p Cons.IH show ?thesis by auto
  qed
qed

lemma check_same_ROIs_named:
  "check_same_ROIs reference_cycle rois roi_tables = Inl (NotSameROIs acq r) \<Longrightarrow>
     r = reference_cycle \<and>
     (\<exists>t. (acq, t) \<in> set roi_tables \<and> obs_names t \<noteq> rois \<and> length (obs_names t) = length rois)"
proof (induction roi_tables)
  case Nil
  then show ?case by simp
next
  case (Cons p roi_tables)
  obtain acq' t where p: "p = (acq', t)" by (cases p)
  show ?case
  proof (cases "index_eq (obs_names t) rois")
    case (Inl e)
    then have "e = LengthsMustMatch" by (auto simp: index_eq_def split: if_splits)
    with Inl p Cons.prems show ?thesis by simp
  next
    case (Inr eqs)
    then have len: "length (obs_names t) = length rois"
      by (auto simp: index_eq_def split: if_splits)
    from index_eq_all [OF Inr] Inr p Cons.prems Cons.IH len show ?thesis
      by (auto split: if_splits)
  qed
qed

lemma check_same_ROIs_same_length:
  "\<forall>(acq, t) \<in> set roi_tables. length (obs_names t) = length rois \<Longrightarrow>
   \<exists>(acq, t) \<in> set roi_tables. obs_names t \<noteq> rois \<Longrightarrow>
   \<exists>acq. check_same_ROIs reference_cycle rois roi_tables = Inl (NotSameROIs acq reference_cycle)"
proof (induction roi_tables)
  case Nil
  then show ?case by simp
next
  case (Cons p roi_tables)
  obtain acq' t where p: "p = (acq', t)" by (cases p)
  from Cons.prems(1) p have len: "length (obs_names t) = length rois" by simp
  then obtain eqs where eqs: "index_eq (obs_names t) rois = Inr eqs"
    by (simp add: index_eq_def)
  show ?case
  proof (cases "obs_names t = rois")
    case True
    with Cons.prems p have "\<forall>(acq, t) \<in> set roi_tables. length (obs_names t) = length rois"
      and "\<exists>(acq, t) \<in> set roi_tables. obs_names t \<noteq> rois" by auto
    from Cons.IH [OF this] index_eq_all [OF eqs] eqs True p show ?thesis by simp
  next
    case False
    with index_eq_all [OF eqs] eqs p show ?thesis by simp
  qed
qed

text \<open>
  Claim C2, as stated, lets the check pass whenever a cycle has the same set of ROI names
  as the reference cycle. The check compares the two indexes position by position: the
  same names in another order are refused, with the error that names the cycle.
\<close>

theorem same_set_other_order_counterexample:
  "set (obs_names (AnnData [] [(''FOV_2'', []), (''FOV_1'', [])])) =
     set (obs_names (AnnData [] [(''FOV_1'', []), (''FOV_2'', [])])) \<and>
   check_same_ROIs 0 (obs_names (AnnData [] [(''FOV_1'', []), (''FOV_2'', [])]))
     [(0, AnnData [] [(''FOV_1'', []), (''FOV_2'', [])]),
      (1, AnnData [] [(''FOV_2'', []), (''FOV_1'', [])])] = Inl (NotSameROIs 1 0) \<and>
   register_roi_tables 0
     [(0, AnnData [] [(''FOV_1'', []), (''FOV_2'', [])]),
      (1, AnnData [] [(''FOV_2'', []), (''FOV_1'', [])])] = Inl (NotSameROIs 1 0)"
  by (auto simp add: AnnData_def register_roi_tables_def bind_err_def dict_get_def index_eq_def)

text \<open>
  Claim C2, amended. The check passes if and only if every cycle's table lists the same
  ROI names in the same order as the table of the reference cycle. The error that names
  a cycle is raised only for a cycle of the dictionary whose list of names has the length
  of the reference's and differs from it, and it is raised for some such cycle when all
  lists have that length and one of them differs. Every error of the check is the error
  of the task.
\<close>

theorem check_same_ROIs_iff:
  assumes "map_of roi_tables reference_cycle = Some reference_table"
  shows
    "((check_same_ROIs reference_cycle (obs_names reference_table) roi_tables = Inr ()) =
        (\<forall>(acq, t) \<in> set roi_tables. obs_names t = obs_names reference_table)) \<and>
     (\<forall>acq r. check_same_ROIs reference_cycle (obs_names reference_table) roi_tables
                = Inl (NotSameROIs acq r) \<longrightarrow>
        r = reference_cycle \<and>
        (\<exists>t. (acq, t) \<in> set roi_tables \<and> obs_names t \<noteq> obs_names reference_table \<and>
             length (obs_names t) = length (obs_names reference_table))) \<and>
     ((\<forall>(acq, t) \<in> set roi_tables. length (obs_names t) = length (obs_names reference_table)) \<and>
      (\<exists>(acq, t) \<in> set roi_tables. obs_names t \<noteq> obs_names reference_table) \<longrightarrow>
        (\<exists>acq. check_same_ROIs reference_cycle (obs_names reference_table) roi_tables
                = Inl (NotSameROIs acq reference_cycle))) \<and>
     (\<forall>e. check_same_ROIs reference_cycle (obs_names reference_table) roi_tables = Inl e \<longrightarrow>
        register_roi_tables reference_cycle roi_tables = Inl e)"
proof (intro conjI allI impI)
  show "(check_same_ROIs reference_cycle (obs_names reference_table) roi_tables = Inr ()) =
        (\<forall>(acq, t) \<in> set roi_tables. obs_names t = obs_names reference_table)"
    by (rule check_same_ROIs_Inr)
next
  fix acq r
  assume "check_same_ROIs reference_cycle (obs_names reference_table) roi_tables
            = Inl (NotSameROIs acq r)"
  from check_same_ROIs_named [OF this]
  show "r = reference_cycle" and
    "\<exists>t. (acq, t) \<in> set roi_tables \<and> obs_names t \<noteq> obs_names reference_table \<and>
         length (obs_names t) = length (obs_names reference_table)"
    by blast+
next
  assume "(\<forall>(acq, t) \<in> set roi_tables. length (obs_names t) = length (obs_names reference_table)) \<and>
      (\<exists>(acq, t) \<in> set roi_tables. obs_names t \<noteq> obs_names reference_table)"
  then show "\<exists>acq. check_same_ROIs reference_cycle (obs_names reference_table) roi_tables
                = Inl (NotSameROIs acq reference_cycle)"
    using check_same_ROIs_same_length by blast
next
  fix e
  assume "check_same_ROIs reference_cycle (obs_names reference_table) roi_tables = Inl e"
  with assms show "register_roi_tables reference_cycle roi_tables = Inl e"
    by (simp add: register_roi_tables_def bind_err_def dict_get_def)
qed

theorem check_same_ROIs_iff_witness:
  "map_of [(0, AnnData [] [(''FOV_1'', []), (''FOV_2'', [])]),
           (1, AnnData [] [(''FOV_1'', []), (''FOV_3'', [])])] 0
     = Some (AnnData [] [(''FOV_1'', []), (''FOV_2'', [])]) \<and>
   (\<exists>acq. check_same_ROIs 0 [''FOV_1'', ''FOV_2'']
       [(0, AnnData [] [(''FOV_1'', []), (''FOV_2'', [])]),
        (1, AnnData [] [(''FOV_1'', []), (''FOV_3'', [])])] = Inl (NotSameROIs acq 0)) \<and>
   check_same_ROIs 0 [''FOV_1'', ''FOV_2'']
       [(0, AnnData [] [(''FOV_1'', []), (''FOV_2'', [])])] = Inr ()"
proof -
  have m: "map_of [(0::int, AnnData [] [(''FOV_1'', []), (''FOV_2'', [])]),
           (1, AnnData [] [(''FOV_1'', []), (''FOV_3'', [])])] 0
     = Some (AnnData [] [(''FOV_1'', []), (''FOV_2'', [])])" by simp
  have m': "map_of [(0::int, AnnData [] [(''FOV_1'', []), (''FOV_2'', [])])] 0
     = Some (AnnData [] [(''FOV_1'', []), (''FOV_2'', [])])" by simp
  have n: "obs_names (AnnData [] [(''FOV_1'', []), (''FOV_2'', [])]) = [''FOV_1'', ''FOV_2'']"
    by (simp add: AnnData_def)
  from check_same_ROIs_iff [OF m] check_same_ROIs_iff [OF m'] m show ?thesis
    unfolding n by (simp add: AnnData_def)
qed

subsection \<open>Maximum and minimum of the translations\<close>

lemma first_index_Some:
  "x \<in> set xs \<Longrightarrow> \<exists>i. first_index xs x = Some i \<and> i < length xs \<and> xs ! i = x"
  by (induction xs) auto

lemma df_loc_grid:
  assumes "row \<in> set rois" and "column \<in> set cols"
  shows "df_loc \<lparr>df_index = rois, df_columns = cols,
                  df_values = map (\<lambda>r. map (g r) cols) rois\<rparr> row column = Inr (g row column)"
proof -
  from first_index_Some [OF assms(1)] obtain i where
    i: "first_index rois row = Some i" "i < length rois" "rois ! i = row" by blast
  from first_index_Some [OF assms(2)] obtain j where
    j: "first_index cols column = Some j" "j < length cols" "cols ! j = column" by blast
  show ?thesis by (simp add: df_loc_def i j)
qed

lemma map_upt_nth:
  "(\<And>i. i < length xs \<Longrightarrow> f i = g (xs ! i)) \<Longrightarrow> map f [0..<length xs] = map g xs"
  by (rule nth_equalityI) simp_all

lemma dataframe_of_ufunc_grid:
  "dataframe_of_ufunc f
     \<lparr>df_index = rois, df_columns = cols, df_values = map (\<lambda>r. map (g r) cols) rois\<rparr>
     \<lparr>df_index = rois, df_columns = cols, df_values = map (\<lambda>r. map (h r) cols) rois\<rparr> =
   Inr \<lparr>df_index = rois, df_columns = cols,
        df_values = map (\<lambda>r. map (\<lambda>c. f (g r c) (h r c)) cols) rois\<rparr>"
proof -
  let ?A = "map (\<lambda>r. map (g r) cols) rois" and ?B = "map (\<lambda>r. map (h r) cols) rois"
  have "map (\<lambda>i. map (\<lambda>j. f (?A ! i ! j)
                 (?B ! (if length rois = 1 then 0 else i) ! (if length cols = 1 then 0 else j)))
               [0..<length cols]) [0..<length rois] =
        map (\<lambda>r. map (\<lambda>c. f (g r c) (h r c)) cols) rois"
  proof (rule map_upt_nth)
    fix i assume i: "i < length rois"
    then have i': "(if length rois = 1 then 0 else i) = i" by simp
    show "map (\<lambda>j. f (?A ! i ! j)
              (?B ! (if length rois = 1 then 0 else i) ! (if length cols = 1 then 0 else j)))
            [0..<length cols] =
          map (\<lambda>c. f (g (rois ! i) c) (h (rois ! i) c)) cols"
    proof (rule map_upt_nth)
      fix j assume j: "j < length cols"
      then have j': "(if length cols = 1 then 0 else j) = j" by simp
      show "f (?A ! i ! j)
              (?B ! (if length rois = 1 then 0 else i) ! (if length cols = 1 then 0 else j)) =
            f (g (rois ! i) (cols ! j)) (h (rois ! i) (cols ! j))"
        unfolding i' j' using i j by simp
    qed
  qed
  then show ?thesis by (simp add: dataframe_of_ufunc_def)
qed

lemma min_max_loop_grid:
  "min_max_loop
     \<lparr>df_index = rois, df_columns = cols, df_values = map (\<lambda>r. map (g r) cols) rois\<rparr>
     \<lparr>df_index = rois, df_columns = cols, df_values = map (\<lambda>r. map (h r) cols) rois\<rparr>
     (map (\<lambda>t. \<lparr>df_index = rois, df_columns = cols,
                  df_values = map (\<lambda>r. map (x t r) cols) rois\<rparr>) ts) =
   Inr (\<lparr>df_index = rois, df_columns = cols,
         df_values = map (\<lambda>r. map (\<lambda>c. foldl npy_ObjectMax (g r c) (map (\<lambda>t. x t r c) ts)) cols) rois\<rparr>,
        \<lparr>df_index = rois, df_columns = cols,
         df_values = map (\<lambda>r. map (\<lambda>c. foldl npy_ObjectMin (h r c) (map (\<lambda>t. x t r c) ts)) cols) rois\<rparr>)"
proof (induction ts arbitrary: g h)
  case Nil
  then show ?case by simp
next
  case (Cons t ts)
  show ?case
    by (simp add: dataframe_of_ufunc_grid Cons.IH)
qed

lemma foldl_npy_ObjectMax_Num:
  "foldl npy_ObjectMax (Num a) (map Num xs) = Num (fold max xs a)"
  by (induction xs arbitrary: a) (auto simp: npy_ObjectMax_def max_def)

lemma foldl_npy_ObjectMin_Num:
  "foldl npy_ObjectMin (Num a) (map Num xs) = Num (fold min xs a)"
  by (induction xs arbitrary: a) (auto simp: npy_ObjectMin_def min_def)

lemma foldl_npy_ObjectMax_NaN:
  assumes "xs \<noteq> []"
  shows "foldl npy_ObjectMax NaN (map Num xs) = Num (Max (set xs))"
proof (cases xs)
  case Nil
  with assms show ?thesis by simp
next
  case (Cons a list)
  have "foldl npy_ObjectMax NaN (map Num xs) = Num (fold max list a)"
    by (simp add: Cons npy_ObjectMax_def foldl_npy_ObjectMax_Num)
  also have "fold max list a = Max (set xs)"
    unfolding Cons by (rule Max.set_eq_fold [symmetric])
  finally show ?thesis .
qed

lemma foldl_npy_ObjectMin_NaN:
  assumes "xs \<noteq> []"
  shows "foldl npy_ObjectMin NaN (map Num xs) = Num (Min (set xs))"
proof (cases xs)
  case Nil
  with assms show ?thesis by simp
next
  case (Cons a list)
  have "foldl npy_ObjectMin NaN (map Num xs) = Num (fold min list a)"
    by (simp add: Cons npy_ObjectMin_def foldl_npy_ObjectMin_Num)
  also have "fold min list a = Min (set xs)"
    unfolding Cons by (rule Min.set_eq_fold [symmetric])
  finally show ?thesis .
qed

lemma map_err_Inr: "\<forall>x \<in> set xs. f x = Inr (g x) \<Longrightarrow> map_err f xs = Inr (map g xs)"
  by (induction xs) auto

subsection \<open>The loop over the ROIs\<close>

lemma shift_position_effect:
  assumes "roi \<in> set (obs_names t)" and "position \<in> set (var_names t)"
    and "translation \<in> set (var_names t)" and "df_loc max_df roi translation = Inr m"
  shows "shift_position t max_df roi position translation =
    Inr (t\<lparr>X_cell := (X_cell t)(roi := (X_cell t roi)(position :=
            fsub (fadd (X_cell t roi position) m) (X_cell t roi translation)))\<rparr>)"
  using assms by (simp add: shift_position_def get_cell_def set_cell_def bind_err_def)

lemma shrink_length_effect:
  assumes "roi \<in> set (obs_names t)" and "len \<in> set (var_names t)"
    and "df_loc max_df roi translation = Inr m" and "df_loc min_df roi translation = Inr n"
  shows "shrink_length t max_df min_df roi len translation =
    Inr (t\<lparr>X_cell := (X_cell t)(roi := (X_cell t roi)(len :=
            fadd (fsub (X_cell t roi len) m) n))\<rparr>)"
  using assms by (simp add: shrink_length_def get_cell_def set_cell_def bind_err_def)

lemma register_roi_effect:
  assumes roi: "roi \<in> set (obs_names t)"
    and cols: "set roi_columns \<union> set translation_columns \<subseteq> set (var_names t)"
    and mx: "\<forall>c \<in> set translation_columns. df_loc max_df roi c = Inr (mx c)"
    and mn: "\<forall>c \<in> set translation_columns. df_loc min_df roi c = Inr (mn c)"
  shows "\<exists>t'. register_roi t max_df min_df roi = Inr t' \<and>
     obs_names t' = obs_names t \<and> var_names t' = var_names t \<and>
     (\<forall>r c. r \<noteq> roi \<longrightarrow> X_cell t' r c = X_cell t r c) \<and>
     (\<forall>(position, len, translation) \<in> set axes.
        X_cell t' roi position =
          fsub (fadd (X_cell t roi position) (mx translation)) (X_cell t roi translation) \<and>
        X_cell t' roi len = fadd (fsub (X_cell t roi len) (mx translation)) (mn translation))"
proof -
  from cols have v:
    "''z_micrometer'' \<in> set (var_names t)" "''y_micrometer'' \<in> set (var_names t)"
    "''x_micrometer'' \<in> set (var_names t)" "''len_z_micrometer'' \<in> set (var_names t)"
    "''len_y_micrometer'' \<in> set (var_names t)" "''len_x_micrometer'' \<in> set (var_names t)"
    "''translation_z'' \<in> set (var_names t)" "''translation_y'' \<in> set (var_names t)"
    "''translation_x'' \<in> set (var_names t)"
    by (auto simp: roi_columns_def translation_columns_def)
  from mx have m: "df_loc max_df roi ''translation_z'' = Inr (mx ''translation_z'')"
    "df_loc max_df roi ''translation_y'' = Inr (mx ''translation_y'')"
    "df_loc max_df roi ''translation_x'' = Inr (mx ''translation_x'')"
    by (simp_all add: translation_columns_def)
  from mn have n: "df_loc min_df roi ''translation_z'' = Inr (mn ''translation_z'')"
    "df_loc min_df roi ''translation_y'' = Inr (mn ''translation_y'')"
    "df_loc min_df roi ''translation_x'' = Inr (mn ''translation_x'')"
    by (simp_all add: translation_columns_def)
  show ?thesis
    unfolding register_roi_def
    by (simp add: bind_err_def shift_position_effect shrink_length_effect roi v m n axes_def)
qed

lemma apply_registration_effect:
  assumes "distinct rois" and "set rois \<subseteq> set (obs_names t)"
    and "set roi_columns \<union> set translation_columns \<subseteq> set (var_names t)"
    and "\<forall>r \<in> set rois. \<forall>c \<in> set translation_columns. df_loc max_df r c = Inr (mx r c)"
    and "\<forall>r \<in> set rois. \<forall>c \<in> set translation_columns. df_loc min_df r c = Inr (mn r c)"
  shows "\<exists>t'. apply_registration_to_single_ROI_table t max_df min_df rois = Inr t' \<and>
     obs_names t' = obs_names t \<and> var_names t' = var_names t \<and>
     (\<forall>r c. r \<notin> set rois \<longrightarrow> X_cell t' r c = X_cell t r c) \<and>
     (\<forall>r \<in> set rois. \<forall>(position, len, translation) \<in> set axes.
        X_cell t' r position =
          fsub (fadd (X_cell t r position) (mx r translation)) (X_cell t r translation) \<and>
        X_cell t' r len = fadd (fsub (X_cell t r len) (mx r translation)) (mn r translation))"
  using assms
proof (induction rois arbitrary: t)
  case Nil
  then show ?case by simp
next
  case (Cons roi rois)
  from Cons.prems have roi: "roi \<in> set (obs_names t)" and notin: "roi \<notin> set rois"
    and d: "distinct rois" and sub: "set rois \<subseteq> set (obs_names t)"
    by auto
  from Cons.prems(4,5) have
    mx1: "\<forall>c \<in> set translation_columns. df_loc max_df roi c = Inr (mx roi c)" and
    mn1: "\<forall>c \<in> set translation_columns. df_loc min_df roi c = Inr (mn roi c)" and
    mx2: "\<forall>r \<in> set rois. \<forall>c \<in> set translation_columns. df_loc max_df r c = Inr (mx r c)" and
    mn2: "\<forall>r \<in> set rois. \<forall>c \<in> set translation_columns. df_loc min_df r c = Inr (mn r c)"
    by auto
  from register_roi_effect [OF roi Cons.prems(3) mx1 mn1] obtain t1 where
    t1: "register_roi t max_df min_df roi = Inr t1"
      "obs_names t1 = obs_names t" "var_names t1 = var_names t"
      "\<forall>r c. r \<noteq> roi \<longrightarrow> X_cell t1 r c = X_cell t r c"
      "\<forall>(position, len, translation) \<in> set axes.
        X_cell t1 roi position =
          fsub (fadd (X_cell t roi position) (mx roi translation)) (X_cell t roi translation) \<and>
        X_cell t1 roi len = fadd (fsub (X_cell t roi len) (mx roi translation)) (mn roi translation)"
    by blast
  have sub1: "set rois \<subseteq> set (obs_names t1)" and
    cols1: "set roi_columns \<union> set translation_columns \<subseteq> set (var_names t1)"
    using sub Cons.prems(3) t1(2,3) by simp_all
  from Cons.IH [OF d sub1 cols1 mx2 mn2] obtain t' where
    t': "apply_registration_to_single_ROI_table t1 max_df min_df rois = Inr t'"
      "obs_names t' = obs_names t1" "var_names t' = var_names t1"
      "\<forall>r c. r \<notin> set rois \<longrightarrow> X_cell t' r c = X_cell t1 r c"
      "\<forall>r \<in> set rois. \<forall>(position, len, translation) \<in> set axes.
        X_cell t' r position =
          fsub (fadd (X_cell t1 r position) (mx r translation)) (X_cell t1 r translation) \<and>
        X_cell t' r len = fadd (fsub (X_cell t1 r len) (mx r translation)) (mn r translation)"
    by blast
  have same: "\<And>r c. r \<in> set rois \<Longrightarrow> X_cell t1 r c = X_cell t r c"
    using t1(4) notin by auto
  have "apply_registration_to_single_ROI_table t max_df min_df (roi # rois) = Inr t'"
    by (simp add: t1(1) t'(1))
  moreover have "obs_names t' = obs_names t" "var_names t' = var_names t"
    by (simp_all add: t1 t')
  moreover have "\<forall>r c. r \<notin> set (roi # rois) \<longrightarrow> X_cell t' r c = X_cell t r c"
    using t'(4) t1(4) by simp
  moreover have "\<forall>r \<in> set (roi # rois). \<forall>(position, len, translation) \<in> set axes.
        X_cell t' r position =
          fsub (fadd (X_cell t r position) (mx r translation)) (X_cell t r translation) \<and>
        X_cell t' r len = fadd (fsub (X_cell t r len) (mx r translation)) (mn r translation)"
  proof
    fix r assume r: "r \<in> set (roi # rois)"
    show "\<forall>(position, len, translation) \<in> set axes.
        X_cell t' r position =
          fsub (fadd (X_cell t r position) (mx r translation)) (X_cell t r translation) \<and>
        X_cell t' r len = fadd (fsub (X_cell t r len) (mx r translation)) (mn r translation)"
    proof (cases "r = roi")
      case True
      with notin t'(4) have "\<And>c. X_cell t' r c = X_cell t1 roi c" by simp
      with t1(5) True show ?thesis by simp
    next
      case False
      with r have "r \<in> set rois" by simp
      with t'(5) same show ?thesis by simp
    qed
  qed
  ultimately show ?case by blast
qed

subsection \<open>The registered tables\<close>

lemma map_err_list_all2:
  "\<forall>x \<in> set xs. \<exists>y. f x = Inr y \<and> P x y \<Longrightarrow>
   \<exists>ys. map_err f xs = Inr ys \<and> list_all2 P xs ys"
proof (induction xs)
  case Nil
  then show ?case by simp
next
  case (Cons x xs)
  then obtain y where y: "f x = Inr y" "P x y" by auto
  from Cons obtain ys where ys: "map_err f xs = Inr ys" "list_all2 P xs ys" by auto
  from y ys show ?case by simp
qed

lemma bind_err_Inr: "bind_err (Inr x) f = f x"
  by (simp add: bind_err_def)

lemma Num_num: "v \<noteq> NaN \<Longrightarrow> v = Num (num v)"
  by (cases v) simp_all

text \<open>
  Claim C1. Take the tables of the cycles, every one with the six ROI columns and the
  three translation columns, all with the ROI names of the reference cycle's table (each
  name once) and numbers in these columns. Then the task returns one table per cycle,
  and for each cycle, each ROI and each axis the new position is the old position plus
  the maximum of that ROI's translations on that axis over all cycles minus the cycle's
  own translation, and the new extent is the old extent minus that maximum plus the
  minimum of these translations.
\<close>

theorem registration_formula:
  assumes keys: "distinct (map fst roi_tables)"
    and ref: "map_of roi_tables reference_cycle = Some reference_table"
    and names: "\<forall>(acq, t) \<in> set roi_tables. obs_names t = obs_names reference_table"
    and uniq: "distinct (obs_names reference_table)"
    and cols: "\<forall>(acq, t) \<in> set roi_tables.
        set roi_columns \<union> set translation_columns \<subseteq> set (var_names t)"
    and nums: "\<forall>(acq, t) \<in> set roi_tables. \<forall>roi \<in> set (obs_names t).
        \<forall>c \<in> set roi_columns \<union> set translation_columns. X_cell t roi c \<noteq> NaN"
  shows "\<exists>shifted_rois.
     register_roi_tables reference_cycle roi_tables = Inr shifted_rois \<and>
     map fst shifted_rois = map fst roi_tables \<and>
     (\<forall>(acq, t) \<in> set roi_tables. \<exists>t'. map_of shifted_rois acq = Some t' \<and>
        (\<forall>roi \<in> set (obs_names t). \<forall>(position, len, translation) \<in> set axes.
           X_cell t' roi position =
             Num (num (X_cell t roi position)
                  + Max ((\<lambda>(a, u). num (X_cell u roi translation)) ` set roi_tables)
                  - num (X_cell t roi translation)) \<and>
           X_cell t' roi len =
             Num (num (X_cell t roi len)
                  - Max ((\<lambda>(a, u). num (X_cell u roi translation)) ` set roi_tables)
                  + Min ((\<lambda>(a, u). num (X_cell u roi translation)) ` set roi_tables))))"
proof -
  let ?rois = "obs_names reference_table"
  let ?tc = "translation_columns"
  define G where "G = (\<lambda>p :: int \<times> anndata.
    \<lparr>df_index = ?rois, df_columns = ?tc,
     df_values = map (\<lambda>r. map (X_cell (snd p) r) ?tc) ?rois\<rparr>)"
  define MX where "MX = (\<lambda>r c. foldl npy_ObjectMax NaN (map (\<lambda>p. X_cell (snd p) r c) roi_tables))"
  define MN where "MN = (\<lambda>r c. foldl npy_ObjectMin NaN (map (\<lambda>p. X_cell (snd p) r c) roi_tables))"
  define max_df where "max_df =
    \<lparr>df_index = ?rois, df_columns = ?tc, df_values = map (\<lambda>r. map (MX r) ?tc) ?rois\<rparr>"
  define min_df where "min_df =
    \<lparr>df_index = ?rois, df_columns = ?tc, df_values = map (\<lambda>r. map (MN r) ?tc) ?rois\<rparr>"
  from ref have ne: "roi_tables \<noteq> []" by auto
  have a: "dict_get roi_tables reference_cycle = Inr reference_table"
    by (simp add: dict_get_def ref)
  have b: "check_same_ROIs reference_cycle ?rois roi_tables = Inr ()"
    using names by (simp add: check_same_ROIs_Inr)
  have c: "map_err (\<lambda>(acq, roi_table). to_df_loc roi_table ?tc) roi_tables = Inr (map G roi_tables)"
  proof (rule map_err_Inr, rule ballI)
    fix p assume p: "p \<in> set roi_tables"
    obtain acq t where pt: "p = (acq, t)" by (cases p)
    from p pt names cols have "obs_names t = ?rois" "set ?tc \<subseteq> set (var_names t)" by auto
    then show "(case p of (acq, roi_table) \<Rightarrow> to_df_loc roi_table ?tc) = Inr (G p)"
      by (simp add: pt to_df_loc_def G_def)
  qed
  have d: "calculate_min_max_across_dfs (map G roi_tables) = Inr (max_df, min_df)"
  proof -
    obtain p ps where pp: "roi_tables = p # ps" using ne by (cases roi_tables) auto
    have e: "replicate (length ?rois) (replicate (length ?tc) NaN) =
        map (\<lambda>r. map (\<lambda>c. NaN) ?tc) ?rois"
      by (simp add: map_replicate_const)
    have "calculate_min_max_across_dfs (map G roi_tables) =
      min_max_loop
        \<lparr>df_index = ?rois, df_columns = ?tc, df_values = map (\<lambda>r. map (\<lambda>c. NaN) ?tc) ?rois\<rparr>
        \<lparr>df_index = ?rois, df_columns = ?tc, df_values = map (\<lambda>r. map (\<lambda>c. NaN) ?tc) ?rois\<rparr>
        (map (\<lambda>p. \<lparr>df_index = ?rois, df_columns = ?tc,
                  df_values = map (\<lambda>r. map (X_cell (snd p) r) ?tc) ?rois\<rparr>) roi_tables)"
      unfolding calculate_min_max_across_dfs_def pp
      by (simp add: G_def Let_def e del: replicate.simps)
    also have "\<dots> = Inr (max_df, min_df)"
      unfolding max_df_def min_df_def MX_def MN_def
      by (rule min_max_loop_grid)
    finally show ?thesis .
  qed
  have MX: "MX r c = Num (Max ((\<lambda>(a, u). num (X_cell u r c)) ` set roi_tables))"
    and MN: "MN r c = Num (Min ((\<lambda>(a, u). num (X_cell u r c)) ` set roi_tables))"
    if "r \<in> set ?rois" "c \<in> set ?tc" for r c
  proof -
    have m1: "map (\<lambda>p. X_cell (snd p) r c) roi_tables =
        map Num (map (\<lambda>(a, u). num (X_cell u r c)) roi_tables)"
    proof (simp, rule ballI)
      fix p assume p: "p \<in> set roi_tables"
      obtain acq t where pt: "p = (acq, t)" by (cases p)
      from p pt names nums that have "X_cell t r c \<noteq> NaN" by fastforce
      then show "X_cell (snd p) r c = Num (case p of (a, u) \<Rightarrow> num (X_cell u r c))"
        by (simp add: pt Num_num [symmetric])
    qed
    have m2: "map (\<lambda>(a, u). num (X_cell u r c)) roi_tables \<noteq> []" using ne by simp
    show "MX r c = Num (Max ((\<lambda>(a, u). num (X_cell u r c)) ` set roi_tables))"
      unfolding MX_def m1 using foldl_npy_ObjectMax_NaN [OF m2] by (simp only: set_map)
    show "MN r c = Num (Min ((\<lambda>(a, u). num (X_cell u r c)) ` set roi_tables))"
      unfolding MN_def m1 using foldl_npy_ObjectMin_NaN [OF m2] by (simp only: set_map)
  qed
  have loc: "\<forall>r \<in> set ?rois. \<forall>c \<in> set ?tc. df_loc max_df r c = Inr (MX r c)"
    "\<forall>r \<in> set ?rois. \<forall>c \<in> set ?tc. df_loc min_df r c = Inr (MN r c)"
    by (simp_all add: max_df_def min_df_def df_loc_grid)
  let ?Q = "\<lambda>(acq :: int, t) (acq', t').
     acq' = acq \<and>
     (\<forall>roi \<in> set (obs_names t). \<forall>(position, len, translation) \<in> set axes.
           X_cell t' roi position =
             Num (num (X_cell t roi position)
                  + Max ((\<lambda>(a, u). num (X_cell u roi translation)) ` set roi_tables)
                  - num (X_cell t roi translation)) \<and>
           X_cell t' roi len =
             Num (num (X_cell t roi len)
                  - Max ((\<lambda>(a, u). num (X_cell u roi translation)) ` set roi_tables)
                  + Min ((\<lambda>(a, u). num (X_cell u roi translation)) ` set roi_tables)))"
  have step: "\<forall>p \<in> set roi_tables. \<exists>y.
      (case p of (acq, _) \<Rightarrow>
         bind_err (dict_get roi_tables acq) (\<lambda>roi_table.
         bind_err (apply_registration_to_single_ROI_table roi_table max_df min_df ?rois) (\<lambda>shifted.
           Inr (acq, shifted)))) = Inr y \<and> ?Q p y"
  proof
    fix p assume p: "p \<in> set roi_tables"
    obtain acq t where pt: "p = (acq, t)" by (cases p)
    from p pt keys have g: "dict_get roi_tables acq = Inr t"
      by (simp add: dict_get_def)
    from p pt names cols have t: "obs_names t = ?rois"
      "set roi_columns \<union> set translation_columns \<subseteq> set (var_names t)" by auto
    from t(1) have sub: "set ?rois \<subseteq> set (obs_names t)" by simp
    from apply_registration_effect [OF uniq sub t(2) loc] obtain t' where
      t': "apply_registration_to_single_ROI_table t max_df min_df ?rois = Inr t'"
        "\<forall>r \<in> set ?rois. \<forall>(position, len, translation) \<in> set axes.
          X_cell t' r position =
            fsub (fadd (X_cell t r position) (MX r translation)) (X_cell t r translation) \<and>
          X_cell t' r len = fadd (fsub (X_cell t r len) (MX r translation)) (MN r translation)"
      by blast
    have "?Q p (acq, t')"
      unfolding pt prod.case
    proof (intro conjI ballI)
      show "acq = acq" by simp
    next
      fix roi ax
      assume roi: "roi \<in> set (obs_names t)" and ax: "ax \<in> set axes"
      obtain position len translation where axd: "ax = (position, len, translation)"
        by (cases ax)
      from ax axd have tr: "translation \<in> set ?tc"
        and pc: "position \<in> set roi_columns \<union> set translation_columns"
        and lc: "len \<in> set roi_columns \<union> set translation_columns"
        and tcc: "translation \<in> set roi_columns \<union> set translation_columns"
        by (auto simp: axes_def translation_columns_def roi_columns_def)
      from roi t(1) have r: "roi \<in> set ?rois" by simp
      from bspec [OF nums p] have nmt: "\<forall>roi \<in> set (obs_names t).
          \<forall>c \<in> set roi_columns \<union> set translation_columns. X_cell t roi c \<noteq> NaN"
        by (simp add: pt)
      from bspec [OF nmt roi] pc lc tcc obtain x l own where
        xs: "X_cell t roi position = Num x" "X_cell t roi len = Num l"
          "X_cell t roi translation = Num own"
        using Num_num by blast
      from bspec [OF bspec [OF t'(2) r] ax] have
        eq: "X_cell t' roi position =
            fsub (fadd (X_cell t roi position) (MX roi translation)) (X_cell t roi translation)"
          "X_cell t' roi len = fadd (fsub (X_cell t roi len) (MX roi translation)) (MN roi translation)"
        by (simp_all add: axd)
      show "case ax of (position, len, translation) \<Rightarrow>
           X_cell t' roi position =
             Num (num (X_cell t roi position)
                  + Max ((\<lambda>(a, u). num (X_cell u roi translation)) ` set roi_tables)
                  - num (X_cell t roi translation)) \<and>
           X_cell t' roi len =
             Num (num (X_cell t roi len)
                  - Max ((\<lambda>(a, u). num (X_cell u roi translation)) ` set roi_tables)
                  + Min ((\<lambda>(a, u). num (X_cell u roi translation)) ` set roi_tables))"
        unfolding axd prod.case eq MX [OF r tr] MN [OF r tr] xs
        by simp
    qed
    with g t'(1) show "\<exists>y.
      (case p of (acq, _) \<Rightarrow>
         bind_err (dict_get roi_tables acq) (\<lambda>roi_table.
         bind_err (apply_registration_to_single_ROI_table roi_table max_df min_df ?rois) (\<lambda>shifted.
           Inr (acq, shifted)))) = Inr y \<and> ?Q p y"
      by (simp add: pt bind_err_def)
  qed
  from map_err_list_all2 [OF step] obtain shifted_rois where
    s: "map_err (\<lambda>(acq, _).
         bind_err (dict_get roi_tables acq) (\<lambda>roi_table.
         bind_err (apply_registration_to_single_ROI_table roi_table max_df min_df ?rois) (\<lambda>shifted.
           Inr (acq, shifted)))) roi_tables = Inr shifted_rois"
      "list_all2 ?Q roi_tables shifted_rois"
    by blast
  have r: "register_roi_tables reference_cycle roi_tables = Inr shifted_rois"
    by (simp add: register_roi_tables_def bind_err_Inr a b c d s(1))
  have fsts: "map fst shifted_rois = map fst roi_tables"
    using s(2) by (induction rule: list_all2_induct) auto
  have each: "\<exists>t'. map_of shifted_rois acq = Some t' \<and> ?Q (acq, t) (acq, t')"
    if "(acq, t) \<in> set roi_tables" for acq t
  proof -
    from that s(2) obtain y where y: "y \<in> set shifted_rois" "?Q (acq, t) y"
      by (metis (no_types, lifting) in_set_conv_nth list_all2_conv_all_nth)
    obtain acq' t' where yt: "y = (acq', t')" by (cases y)
    from y(2) yt have acq': "acq' = acq" by simp
    from keys fsts have "distinct (map fst shifted_rois)" by simp
    with y(1) yt acq' have "map_of shifted_rois acq = Some t'" by simp
    with y(2) yt acq' show ?thesis by simp
  qed
  from r fsts each show ?thesis by fastforce
qed

theorem registration_formula_witness:
  "\<exists>shifted_rois t0 t1.
     register_roi_tables 0
       [(0, AnnData (roi_columns @ translation_columns)
              [(''FOV_1'', [0, 0, 0, 100, 100, 10, 0, 0, 0])]),
        (1, AnnData (roi_columns @ translation_columns)
              [(''FOV_1'', [0, 0, 0, 100, 100, 10, 0, 0, 5])])] = Inr shifted_rois \<and>
     map_of shifted_rois 0 = Some t0 \<and> map_of shifted_rois 1 = Some t1 \<and>
     X_cell t0 ''FOV_1'' ''x_micrometer'' = Num 5 \<and>
     X_cell t0 ''FOV_1'' ''len_x_micrometer'' = Num 95 \<and>
     X_cell t1 ''FOV_1'' ''x_micrometer'' = Num 0 \<and>
     X_cell t1 ''FOV_1'' ''len_x_micrometer'' = Num 95"
proof -
  define c0 where "c0 = AnnData (roi_columns @ translation_columns)
              [(''FOV_1'', [0, 0, 0, 100, 100, 10, 0, 0, 0])]"
  define c1 where "c1 = AnnData (roi_columns @ translation_columns)
              [(''FOV_1'', [0, 0, 0, 100, 100, 10, 0, 0, 5])]"
  have obs: "obs_names c0 = [''FOV_1'']" "obs_names c1 = [''FOV_1'']"
    and var: "var_names c0 = roi_columns @ translation_columns"
      "var_names c1 = roi_columns @ translation_columns"
    by (simp_all add: c0_def c1_def AnnData_def)
  have cells:
    "X_cell c0 ''FOV_1'' ''x_micrometer'' = Num 0" "X_cell c1 ''FOV_1'' ''x_micrometer'' = Num 0"
    "X_cell c0 ''FOV_1'' ''len_x_micrometer'' = Num 100" "X_cell c1 ''FOV_1'' ''len_x_micrometer'' = Num 100"
    "X_cell c0 ''FOV_1'' ''translation_x'' = Num 0" "X_cell c1 ''FOV_1'' ''translation_x'' = Num 5"
    by (simp_all add: c0_def c1_def AnnData_def roi_columns_def translation_columns_def)
  have nn: "\<forall>c \<in> set roi_columns \<union> set translation_columns. X_cell c0 ''FOV_1'' c \<noteq> NaN"
    "\<forall>c \<in> set roi_columns \<union> set translation_columns. X_cell c1 ''FOV_1'' c \<noteq> NaN"
    by (simp_all add: c0_def c1_def AnnData_def roi_columns_def translation_columns_def)
  have keys: "distinct (map fst [(0::int, c0), (1, c1)])" by simp
  have ref: "map_of [(0::int, c0), (1, c1)] 0 = Some c0" by simp
  have names: "\<forall>(acq, t) \<in> set [(0::int, c0), (1, c1)]. obs_names t = obs_names c0"
    by (simp add: obs)
  have uniq: "distinct (obs_names c0)" by (simp add: obs)
  have cols: "\<forall>(acq, t) \<in> set [(0::int, c0), (1, c1)].
      set roi_columns \<union> set translation_columns \<subseteq> set (var_names t)"
    by (simp add: var)
  have nums: "\<forall>(acq, t) \<in> set [(0::int, c0), (1, c1)]. \<forall>roi \<in> set (obs_names t).
      \<forall>c \<in> set roi_columns \<union> set translation_columns. X_cell t roi c \<noteq> NaN"
    using nn by (simp add: obs)
  from registration_formula [OF keys ref names uniq cols nums] obtain shifted_rois where
    s: "register_roi_tables 0 [(0, c0), (1, c1)] = Inr shifted_rois"
      "\<forall>(acq, t) \<in> set [(0::int, c0), (1, c1)]. \<exists>t'. map_of shifted_rois acq = Some t' \<and>
        (\<forall>roi \<in> set (obs_names t). \<forall>(position, len, translation) \<in> set axes.
           X_cell t' roi position =
             Num (num (X_cell t roi position)
                  + Max ((\<lambda>(a, u). num (X_cell u roi translation)) ` set [(0::int, c0), (1, c1)])
                  - num (X_cell t roi translation)) \<and>
           X_cell t' roi len =
             Num (num (X_cell t roi len)
                  - Max ((\<lambda>(a, u). num (X_cell u roi translation)) ` set [(0::int, c0), (1, c1)])
                  + Min ((\<lambda>(a, u). num (X_cell u roi translation)) ` set [(0::int, c0), (1, c1)])))"
    by blast
  have ax: "(''x_micrometer'', ''len_x_micrometer'', ''translation_x'') \<in> set axes"
    by (simp add: axes_def)
  from s(2) obtain t0 where t0: "map_of shifted_rois 0 = Some t0"
    "\<forall>roi \<in> set (obs_names c0). \<forall>(position, len, translation) \<in> set axes.
           X_cell t0 roi position =
             Num (num (X_cell c0 roi position)
                  + Max ((\<lambda>(a, u). num (X_cell u roi translation)) ` set [(0::int, c0), (1, c1)])
                  - num (X_cell c0 roi translation)) \<and>
           X_cell t0 roi len =
             Num (num (X_cell c0 roi len)
                  - Max ((\<lambda>(a, u). num (X_cell u roi translation)) ` set [(0::int, c0), (1, c1)])
                  + Min ((\<lambda>(a, u). num (X_cell u roi translation)) ` set [(0::int, c0), (1, c1)]))"
    by auto
  from s(2) obtain t1 where t1: "map_of shifted_rois 1 = Some t1"
    "\<forall>roi \<in> set (obs_names c1). \<forall>(position, len, translation) \<in> set axes.
           X_cell t1 roi position =
             Num (num (X_cell c1 roi position)
                  + Max ((\<lambda>(a, u). num (X_cell u roi translation)) ` set [(0::int, c0), (1, c1)])
                  - num (X_cell c1 roi translation)) \<and>
           X_cell t1 roi len =
             Num (num (X_cell c1 roi len)
                  - Max ((\<lambda>(a, u). num (X_cell u roi translation)) ` set [(0::int, c0), (1, c1)])
                  + Min ((\<lambda>(a, u). num (X_cell u roi translation)) ` set [(0::int, c0), (1, c1)]))"
    by auto
  from bspec [OF bspec [OF t0(2)] ax, of "''FOV_1''"]
  have r0: "X_cell t0 ''FOV_1'' ''x_micrometer'' = Num 5"
    "X_cell t0 ''FOV_1'' ''len_x_micrometer'' = Num 95"
    by (simp_all add: obs cells)
  from bspec [OF bspec [OF t1(2)] ax, of "''FOV_1''"]
  have r1: "X_cell t1 ''FOV_1'' ''x_micrometer'' = Num 0"
    "X_cell t1 ''FOV_1'' ''len_x_micrometer'' = Num 95"
    by (simp_all add: obs cells)
  from s(1) t0(1) t1(1) r0 r1 show ?thesis
    unfolding c0_def c1_def by blast
qed

end
